(* ===== verification/Prelude.thy ===== *)
theory Prelude
  imports Main "HOL-Library.Word" "HOL-Library.Sublist"
begin

section \<open>Shared vocabulary of the development\<close>

text \<open>
  The types and the generic facts every component theory uses:
  \<^item> \<open>byte\<close> is the C type \<open>uint8_t\<close>, \<open>u16\<close>/\<open>u32\<close>/\<open>u64\<close> the wider unsigned types and
    \<open>wchar\<close> the 16-bit \<open>wchar_t\<close> of the Windows programs. A C string is the list of its
    characters up to, and without, the terminating NUL (type \<open>string\<close>);
  \<^item> the conversions between characters and bytes, and that they are inverse;
  \<^item> \<open>invariant_machine\<close>, the interface between a handler that is called once per event and
    the loops that call it: a handler that keeps an invariant keeps it over every run.
\<close>

unbundle bit_operations_syntax

type_synonym byte = "8 word"
type_synonym u16 = "16 word"
type_synonym u32 = "32 word"
type_synonym u64 = "64 word"
type_synonym wchar = "16 word"
type_synonym wstring = "16 word list"

subsection \<open>Characters and bytes\<close>

definition NUL :: char where
  "NUL = CHR 0x00"

definition byte_of_char :: "char \<Rightarrow> byte" where
  "byte_of_char c = word_of_nat (of_char c)"

definition char_of_byte :: "byte \<Rightarrow> char" where
  "char_of_byte b = char_of (unat b)"

lemma of_char_less_256: "(of_char c :: nat) < 256"
  using nat_of_char_less_256 by blast

lemma unat_byte_of_char [simp]: "unat (byte_of_char c) = of_char c"
  using of_char_less_256 [of c]
  by (simp add: byte_of_char_def unsigned_of_nat take_bit_nat_eq_self)

lemma char_of_byte_of_char [simp]: "char_of_byte (byte_of_char c) = c"
  by (simp add: char_of_byte_def)

lemma byte_of_char_of_byte [simp]: "byte_of_char (char_of_byte b) = b"
proof -
  have "unat b < 256"
    using unsigned_less [of b] by simp
  then show ?thesis
    by (simp add: char_of_byte_def byte_of_char_def)
qed

lemma byte_of_char_eq_iff [simp]: "byte_of_char c = byte_of_char d \<longleftrightarrow> c = d"
  by (metis char_of_byte_of_char)

lemma char_of_byte_eq_NUL_iff: "char_of_byte b = NUL \<longleftrightarrow> b = 0"
proof -
  have "char_of_byte 0 = NUL"
    by (simp add: char_of_byte_def NUL_def char_of_def)
  then show ?thesis by (metis byte_of_char_of_byte)
qed

subsection \<open>Lists\<close>

lemma takeWhile_all_id: "(\<And>x. x \<in> set xs \<Longrightarrow> P x) \<Longrightarrow> takeWhile P xs = xs"
  by simp

lemma takeWhile_append_stop:
  "(\<And>x. x \<in> set xs \<Longrightarrow> P x) \<Longrightarrow> \<not> P y \<Longrightarrow> takeWhile P (xs @ y # ys) = xs"
  by (induction xs) auto

lemma dropWhile_append_stop:
  "(\<And>x. x \<in> set xs \<Longrightarrow> P x) \<Longrightarrow> \<not> P y \<Longrightarrow> dropWhile P (xs @ y # ys) = y # ys"
  by (induction xs) auto

lemma map_nth_upt: "map (\<lambda>i. f (xs ! i)) [0..<length xs] = map f xs"
  by (rule nth_equalityI) auto

subsection \<open>Handlers with an invariant\<close>

text \<open>
  Every program of the repository with an event loop (the password daemon's accept loop, the
  window procedure and timers of the guest agent, the brightness key loop, the panel) is one
  handler called per event. A handler that keeps \<open>good\<close> for the events \<open>ok\<close> keeps it along any
  sequence of them, from any good state.
\<close>

locale invariant_machine =
  fixes step :: "'s \<Rightarrow> 'e \<Rightarrow> 's"
    and ok :: "'e \<Rightarrow> bool"
    and good :: "'s \<Rightarrow> bool"
  assumes step_good: "good s \<Longrightarrow> ok e \<Longrightarrow> good (step s e)"
begin

lemma run_good: "good s \<Longrightarrow> list_all ok es \<Longrightarrow> good (foldl step s es)"
  by (induction es arbitrary: s) (auto intro: step_good)

lemma run_prefix_good:
  assumes "good s" and "list_all ok es" and "prefix es' es"
  shows "good (foldl step s es')"
proof -
  from \<open>prefix es' es\<close> and \<open>list_all ok es\<close> have "list_all ok es'"
    by (auto simp: prefix_def)
  with \<open>good s\<close> show ?thesis by (rule run_good)
qed

end

text \<open>
  A handler that may fail to return is a function into the option type; a run ends with \<open>None\<close> as soon
  as one call does not return. The guest agent's message loop and the brightness key loop are of this kind.
\<close>

fun run_opt :: "('s \<Rightarrow> 'e \<Rightarrow> 's option) \<Rightarrow> 's \<Rightarrow> 'e list \<Rightarrow> 's option" where
  "run_opt step s [] = Some s"
| "run_opt step s (e # es) = (case step s e of None \<Rightarrow> None | Some s' \<Rightarrow> run_opt step s' es)"

locale partial_machine =
  fixes pstep :: "'s \<Rightarrow> 'e \<Rightarrow> 's option"
    and good :: "'s \<Rightarrow> bool"
  assumes pstep_good: "good s \<Longrightarrow> pstep s e = Some s' \<Longrightarrow> good s'"
begin

lemma run_opt_good: "good s \<Longrightarrow> run_opt pstep s es = Some s' \<Longrightarrow> good s'"
  by (induction es arbitrary: s) (auto split: option.splits intro: pstep_good)

lemma run_opt_returns:
  "(\<And>s e. e \<in> set es \<Longrightarrow> pstep s e \<noteq> None) \<Longrightarrow> \<exists>s'. run_opt pstep s es = Some s'"
  by (induction es arbitrary: s) (auto split: option.split)

end

end
