(* ===== verification/CLib.thy ===== *)
theory CLib
  imports Prelude
begin

section \<open>The C library functions the programs call\<close>

text \<open>
  What the sources use of the C standard library: number parsing (\<open>strtol\<close>, \<open>strtoul\<close>,
  \<open>atoi\<close>), the \<open>%d\<close> conversion of \<open>printf\<close>, the truncation of \<open>snprintf\<close>, \<open>fgets\<close>, the string
  stored at a position of a character array, \<open>strstr\<close> and \<open>strncmp\<close>.
  \<^item> \<open>strtol\<close> skips white space, takes an optional sign and the longest run of digits, and
    saturates at the bounds of \<open>long\<close> (32 bits for the Windows programs, 64 bits for the Linux
    ones). With no digit it returns 0 and leaves its end pointer at the start of the input.
  \<^item> \<open>atoi\<close> is \<open>strtol\<close> on Windows, and \<open>strtol\<close> cast to a 32-bit \<open>int\<close> in glibc.
\<close>

subsection \<open>Character classes\<close>

definition c_isspace :: "char \<Rightarrow> bool" where
  "c_isspace c \<longleftrightarrow> c = CHR '' '' \<or> (9 \<le> (of_char c :: nat) \<and> (of_char c :: nat) \<le> 13)"

definition c_isdigit :: "char \<Rightarrow> bool" where
  "c_isdigit c \<longleftrightarrow> 48 \<le> (of_char c :: nat) \<and> (of_char c :: nat) \<le> 57"

definition digit_val :: "char \<Rightarrow> nat" where
  "digit_val c = of_char c - 48"

definition digit_char :: "nat \<Rightarrow> char" where
  "digit_char d = char_of (48 + d)"

lemma of_char_digit_char: "d < 10 \<Longrightarrow> of_char (digit_char d) = 48 + d"
  by (simp add: digit_char_def)

lemma c_isdigit_digit_char [simp]: "d < 10 \<Longrightarrow> c_isdigit (digit_char d)"
  by (simp add: c_isdigit_def of_char_digit_char)

lemma digit_val_digit_char [simp]: "d < 10 \<Longrightarrow> digit_val (digit_char d) = d"
  by (simp add: digit_val_def of_char_digit_char)

lemma c_isdigit_not_space: "c_isdigit c \<Longrightarrow> \<not> c_isspace c"
  by (auto simp: c_isdigit_def c_isspace_def)

lemma c_isdigit_not_sign: "c_isdigit c \<Longrightarrow> c \<noteq> CHR ''-'' \<and> c \<noteq> CHR ''+''"
  by (auto simp: c_isdigit_def)

lemma c_isdigit_not_NUL: "c_isdigit c \<Longrightarrow> c \<noteq> NUL"
  by (auto simp: c_isdigit_def NUL_def)

lemma c_isdigit_not_delim:
  "c_isdigit c \<Longrightarrow> c \<noteq> CHR ''\<newline>'' \<and> c \<noteq> CHR 0x09 \<and> c \<noteq> CHR 0x0D \<and> c \<noteq> CHR '' ''"
  by (auto simp: c_isdigit_def)

subsection \<open>Parsing numbers\<close>

definition digits_val :: "string \<Rightarrow> nat" where
  "digits_val ds = foldl (\<lambda>a c. 10 * a + digit_val c) 0 ds"

fun c_sign :: "string \<Rightarrow> bool \<times> string" where
  "c_sign [] = (False, [])"
| "c_sign (c # s) =
     (if c = CHR ''-'' then (True, s) else if c = CHR ''+'' then (False, s) else (False, c # s))"

definition clamp :: "int \<Rightarrow> int \<Rightarrow> int \<Rightarrow> int" where
  "clamp lo hi x = (if x < lo then lo else if hi < x then hi else x)"

definition c_strtol :: "int \<Rightarrow> int \<Rightarrow> string \<Rightarrow> int \<times> string" where
  "c_strtol lo hi s =
     (let (neg, u) = c_sign (dropWhile c_isspace s);
          ds = takeWhile c_isdigit u;
          v = int (digits_val ds)
      in if ds = [] then (0, s)
         else (clamp lo hi (if neg then - v else v), dropWhile c_isdigit u))"

abbreviation strtol_win :: "string \<Rightarrow> int \<times> string" where
  "strtol_win \<equiv> c_strtol (- 2147483648) 2147483647"

definition atoi_win :: "string \<Rightarrow> int" where
  "atoi_win s = fst (strtol_win s)"

definition atoi_glibc :: "string \<Rightarrow> int" where
  "atoi_glibc s = sint (word_of_int (fst (c_strtol (- (2 ^ 63)) (2 ^ 63 - 1) s)) :: 32 word)"

text \<open>\<open>strtoul\<close> of a 64-bit glibc: saturation at \<open>ULONG_MAX\<close>, a minus sign negates modulo \<open>2^64\<close>.\<close>

definition c_strtoul :: "string \<Rightarrow> u64 \<times> string" where
  "c_strtoul s =
     (let (neg, u) = c_sign (dropWhile c_isspace s);
          ds = takeWhile c_isdigit u;
          v = digits_val ds
      in if ds = [] then (0, s)
         else (if v \<ge> 2 ^ 64 then - 1
               else if neg then - word_of_nat v else word_of_nat v, dropWhile c_isdigit u))"

lemma clamp_id: "lo \<le> x \<Longrightarrow> x \<le> hi \<Longrightarrow> clamp lo hi x = x"
  by (simp add: clamp_def)

lemma clamp_bounds: "lo \<le> hi \<Longrightarrow> lo \<le> clamp lo hi x \<and> clamp lo hi x \<le> hi"
  by (simp add: clamp_def)

lemma c_strtol_range:
  assumes "lo \<le> 0" and "0 \<le> hi"
  shows "lo \<le> fst (c_strtol lo hi s) \<and> fst (c_strtol lo hi s) \<le> hi"
  using assms by (auto simp: c_strtol_def clamp_def Let_def split: prod.splits)

lemma c_sign_length: "length (snd (c_sign s)) \<le> length s"
  by (cases s) auto

lemma c_strtol_rest_length: "length (snd (c_strtol lo hi s)) \<le> length s"
proof -
  have "length (snd (c_sign (dropWhile c_isspace s))) \<le> length s"
    using c_sign_length length_dropWhile_le le_trans by blast
  then show ?thesis
    using length_dropWhile_le [of c_isdigit "snd (c_sign (dropWhile c_isspace s))"]
    by (auto simp: c_strtol_def Let_def split: prod.splits)
qed

subsection \<open>Printing numbers\<close>

fun show_nat :: "nat \<Rightarrow> string" where
  "show_nat n = (if n < 10 then [digit_char n] else show_nat (n div 10) @ [digit_char (n mod 10)])"

declare show_nat.simps [simp del]

definition show_int :: "int \<Rightarrow> string" where
  "show_int i = (if i < 0 then CHR ''-'' # show_nat (nat (- i)) else show_nat (nat i))"

lemma show_nat_digits: "c \<in> set (show_nat n) \<Longrightarrow> c_isdigit c"
proof (induction n rule: show_nat.induct)
  case (1 n)
  then show ?case
    by (subst (asm) show_nat.simps) (auto split: if_splits)
qed

lemma show_nat_not_Nil: "show_nat n \<noteq> []"
  by (subst show_nat.simps) simp

lemma digits_val_snoc: "digits_val (ds @ [c]) = 10 * digits_val ds + digit_val c"
  by (simp add: digits_val_def)

lemma digits_val_show_nat: "digits_val (show_nat n) = n"
proof (induction n rule: show_nat.induct)
  case (1 n)
  then show ?case
    by (subst show_nat.simps) (auto simp: digits_val_snoc, simp add: digits_val_def)
qed

lemma length_show_nat_bound: "n < 10 ^ k \<Longrightarrow> 0 < k \<Longrightarrow> length (show_nat n) \<le> k"
proof (induction k arbitrary: n)
  case 0
  then show ?case by simp
next
  case (Suc k)
  show ?case
  proof (cases "n < 10")
    case True
    then show ?thesis by (subst show_nat.simps) simp
  next
    case False
    with Suc.prems have k: "0 < k"
      by (cases k) auto
    from Suc.prems(1) have "n div 10 < 10 ^ k"
      by (simp add: less_mult_imp_div_less mult.commute)
    from this and k have "length (show_nat (n div 10)) \<le> k" by (rule Suc.IH)
    with False show ?thesis by (subst show_nat.simps) simp
  qed
qed

text \<open>Parsing what \<open>%d\<close> printed: the number comes back and the text after it is left over.\<close>

lemma takeWhile_digits:
  assumes "\<And>c. c \<in> set ds \<Longrightarrow> c_isdigit c" and "rest = [] \<or> \<not> c_isdigit (hd rest)"
  shows "takeWhile c_isdigit (ds @ rest) = ds" and "dropWhile c_isdigit (ds @ rest) = rest"
  using assms by (cases rest; simp add: takeWhile_append_stop dropWhile_append_stop takeWhile_all_id)+

lemma c_sign_dropWhile_digits:
  assumes "ds \<noteq> []" and "\<And>c. c \<in> set ds \<Longrightarrow> c_isdigit c"
  shows "c_sign (dropWhile c_isspace (ds @ rest)) = (False, ds @ rest)"
  using assms by (cases ds) (auto simp: c_isdigit_not_space c_isdigit_not_sign)

lemma c_strtol_show_nat:
  assumes "rest = [] \<or> \<not> c_isdigit (hd rest)" and "lo \<le> 0" and "int n \<le> hi"
  shows "c_strtol lo hi (show_nat n @ rest) = (int n, rest)"
proof -
  have "takeWhile c_isdigit (show_nat n @ rest) = show_nat n"
    and "dropWhile c_isdigit (show_nat n @ rest) = rest"
    using takeWhile_digits [of "show_nat n" rest] show_nat_digits assms(1) by blast+
  with assms(2,3) show ?thesis
    by (simp add: c_strtol_def c_sign_dropWhile_digits show_nat_not_Nil show_nat_digits
        digits_val_show_nat clamp_id)
qed

lemma atoi_win_show_nat: "n \<le> 2147483647 \<Longrightarrow> atoi_win (show_nat n) = int n"
  using c_strtol_show_nat [of "[]" "- 2147483648" n 2147483647] by (simp add: atoi_win_def)

lemma atoi_glibc_show_nat:
  assumes "n \<le> 2147483647"
  shows "atoi_glibc (show_nat n) = int n"
proof -
  have "c_strtol (- (2 ^ 63)) (2 ^ 63 - 1) (show_nat n) = (int n, [])"
    using c_strtol_show_nat [of "[]" "- (2 ^ 63)" n "2 ^ 63 - 1"] assms by simp
  moreover have "signed_take_bit 31 (int n) = int n"
    using assms by (simp add: signed_take_bit_int_eq_self)
  ultimately show ?thesis by (simp add: atoi_glibc_def signed_of_nat)
qed

lemma atoi_glibc_range: "- 2147483648 \<le> atoi_glibc s \<and> atoi_glibc s \<le> 2147483647"
  using sint_greater_eq [of "word_of_int (fst (c_strtol (- (2 ^ 63)) (2 ^ 63 - 1) s)) :: 32 word"]
    sint_less [of "word_of_int (fst (c_strtol (- (2 ^ 63)) (2 ^ 63 - 1) s)) :: 32 word"]
  by (simp add: atoi_glibc_def)

subsection \<open>Strings in buffers\<close>

definition cstr :: "string \<Rightarrow> string" where
  "cstr buf = takeWhile (\<lambda>c. c \<noteq> NUL) buf"

definition cstr_at :: "string \<Rightarrow> nat \<Rightarrow> string" where
  "cstr_at buf i = cstr (drop i buf)"

definition snprintf_buf :: "nat \<Rightarrow> string \<Rightarrow> string" where
  "snprintf_buf n s = take (n - 1) s"

text \<open>\<open>fgets\<close> into a buffer of \<open>n\<close> characters: at most \<open>n - 1\<close> of them, up to a newline.\<close>

fun fgets_take :: "nat \<Rightarrow> string \<Rightarrow> string \<times> string" where
  "fgets_take 0 s = ([], s)"
| "fgets_take (Suc n) [] = ([], [])"
| "fgets_take (Suc n) (c # s) =
     (if c = CHR ''\<newline>'' then ([c], s) else (let (l, r) = fgets_take n s in (c # l, r)))"

definition fgets :: "nat \<Rightarrow> string \<Rightarrow> (string \<times> string) option" where
  "fgets n s = (if s = [] then None else Some (fgets_take (n - 1) s))"

fun strstr :: "string \<Rightarrow> string \<Rightarrow> bool" where
  "strstr [] pat = (pat = [])"
| "strstr (c # s) pat = (prefix pat (c # s) \<or> strstr s pat)"

definition strncmp_eq :: "string \<Rightarrow> string \<Rightarrow> nat \<Rightarrow> bool" where
  "strncmp_eq a b n \<longleftrightarrow> take n a = take n b"

lemma fgets_take_split: "fgets_take n s = (l, r) \<Longrightarrow> s = l @ r \<and> length l \<le> n"
  by (induction n s arbitrary: l r rule: fgets_take.induct) (auto split: if_splits prod.splits)

lemma fgets_take_progress: "0 < n \<Longrightarrow> s \<noteq> [] \<Longrightarrow> length (snd (fgets_take n s)) < length s"
proof (induction n s rule: fgets_take.induct)
  case (3 n c s)
  have "length (snd (fgets_take n s)) \<le> length s"
    using fgets_take_split [of n s] by (cases "fgets_take n s") auto
  then show ?case by (auto split: prod.splits)
qed auto

lemma fgets_progress: "fgets n s = Some (l, r) \<Longrightarrow> 2 \<le> n \<Longrightarrow> length r < length s"
  using fgets_take_progress [of "n - 1" s] by (auto simp: fgets_def split: if_splits)

lemma fgets_split: "fgets n s = Some (l, r) \<Longrightarrow> s = l @ r \<and> length l \<le> n - 1"
  using fgets_take_split [of "n - 1" s l r] by (auto simp: fgets_def split: if_splits)

lemma fgets_line:
  assumes "CHR ''\<newline>'' \<notin> set l" and "Suc (length l) < n"
  shows "fgets n (l @ CHR ''\<newline>'' # r) = Some (l @ [CHR ''\<newline>''], r)"
proof -
  have "fgets_take m (l @ CHR ''\<newline>'' # r) = (l @ [CHR ''\<newline>''], r)"
    if "length l < m" for m
    using that assms(1)
  proof (induction l arbitrary: m)
    case Nil
    then show ?case by (cases m) auto
  next
    case (Cons a l)
    then show ?case by (cases m) auto
  qed
  with assms(2) show ?thesis by (simp add: fgets_def)
qed

lemma cstr_append_NUL [simp]: "NUL \<notin> set s \<Longrightarrow> cstr (s @ NUL # r) = s"
  unfolding cstr_def by (rule takeWhile_append_stop) auto

lemma cstr_no_NUL [simp]: "NUL \<notin> set s \<Longrightarrow> cstr s = s"
  unfolding cstr_def by (rule takeWhile_all_id) auto

lemma NUL_notin_cstr: "NUL \<notin> set (cstr s)"
  by (auto simp: cstr_def dest: set_takeWhileD)

end
