(* ===== verification/PwDaemon.thy ===== *)
theory PwDaemon
  imports CLib
begin

section \<open>The password daemon (run-virt/pw_daemon.c)\<close>

text \<open>
  The daemon runs on the host for one user. It keeps the user's login password encrypted with a
  random key, tells the two keys, its UDP port and the user name to a local client of the same
  user (\<open>GET\<close> on a unix socket), and sends the encrypted password to whoever sends the first
  key to the UDP port. The guest agent (theory \<open>GuestCreds\<close>) is the other end.

  System calls are inputs of the model: the record \<open>daemon_env\<close> holds what each call of the
  start-up returns, \<open>sysread\<close> lists the results of \<open>read\<close> on \<open>/dev/urandom\<close>, and \<open>rnd n\<close> is the
  \<open>n\<close>-th result of \<open>rand\<close>. What the start-up does to the process is the list of its \<open>action\<close>s,
  in order. Allocation is taken to succeed where the source does not check it (\<open>malloc\<close>);
  \<open>strdup\<close>, which it checks, may fail.
\<close>

definition KEYLEN :: nat where
  "KEYLEN = 16"

lemma KEYLEN_pos [simp]: "0 < KEYLEN"
  by (simp add: KEYLEN_def)

record pwstate =
  username :: string
  passwordEnc :: "byte list"
  passwordLen :: nat
  key1 :: "byte list"
  key2 :: "byte list"
  key1s :: string
  key2s :: string

subsection \<open>Keys\<close>

text \<open>One result of \<open>read\<close>: the bytes the device has ready, an interrupt, or another error.\<close>

datatype sysread = RdData "byte list" | RdEINTR | RdError

text \<open>
  The reading loop of \<open>keygen\<close>: \<open>key\<close> is what has been stored so far. The kernel hands out at
  most the number of bytes asked for. \<open>None\<close> is a call that never returns (no result left).
\<close>

fun keygen_read :: "sysread list \<Rightarrow> byte list \<Rightarrow> byte list option" where
  "keygen_read rs key =
     (if length key < KEYLEN then
        (case rs of
           [] \<Rightarrow> None
         | RdEINTR # rs' \<Rightarrow> keygen_read rs' key
         | RdError # rs' \<Rightarrow> Some key
         | RdData bs # rs' \<Rightarrow>
             (let got = take (KEYLEN - length key) bs
              in if got = [] then Some key else keygen_read rs' (key @ got)))
      else Some key)"

declare keygen_read.simps [simp del]

text \<open>The rest of the key comes from \<open>rand\<close>; \<open>n\<close> counts the calls made so far.\<close>

function keygen_rand :: "(nat \<Rightarrow> nat) \<Rightarrow> nat \<Rightarrow> byte list \<Rightarrow> byte list \<times> nat" where
  "keygen_rand rnd n key =
     (if length key < KEYLEN
      then keygen_rand rnd (Suc n) (key @ [word_of_nat (rnd n) AND 0xff])
      else (key, n))"
  by pat_completeness auto
termination
  by (relation "measure (\<lambda>(rnd, n, key). KEYLEN - length key)") auto

declare keygen_rand.simps [simp del]

record urandom =
  dev_open :: bool
  dev_entropy :: "int option"
  dev_reads :: "sysread list"

definition keygen :: "urandom \<Rightarrow> (nat \<Rightarrow> nat) \<Rightarrow> nat \<Rightarrow> (byte list \<times> nat) option" where
  "keygen dev rnd n =
     (case (if dev_open dev \<and> (case dev_entropy dev of None \<Rightarrow> False | Some e \<Rightarrow> 0 < e)
            then keygen_read (dev_reads dev) [] else Some []) of
        None \<Rightarrow> None
      | Some key \<Rightarrow> Some (keygen_rand rnd n key))"

subsection \<open>Encryption and printing of keys\<close>

text \<open>
  The first byte of the length prefix is computed as the source writes it: the cast to
  \<open>uint8_t\<close> binds tighter than the shift.
\<close>

definition xorString_pwd :: "string \<Rightarrow> byte list \<Rightarrow> byte list" where
  "xorString_pwd inputText key =
     (let text = map byte_of_char inputText;
          len = (word_of_nat (length text) :: u64)
      in [ucast (drop_bit 8 (ucast (ucast (len AND 0xff00) :: byte) :: u32)),
          ucast (len AND 0xff)]
         @ map (\<lambda>i. text ! i XOR key ! (i mod KEYLEN)) [0..<length text])"

definition hexconvtab :: string where
  "hexconvtab = ''0123456789abcdef''"

definition bin2hex :: "byte list \<Rightarrow> string" where
  "bin2hex bin = concat (map (\<lambda>b. [hexconvtab ! unat (drop_bit 4 b), hexconvtab ! unat (b AND 0xf)]) bin)"

definition setup_vars ::
  "bool \<Rightarrow> urandom \<Rightarrow> urandom \<Rightarrow> (nat \<Rightarrow> nat) \<Rightarrow> string \<Rightarrow> string \<Rightarrow> (pwstate option \<times> nat) option" where
  "setup_vars strdup_ok dev1 dev2 rnd envuser envpass =
     (case keygen dev1 rnd 0 of
        None \<Rightarrow> None
      | Some (k1, n1) \<Rightarrow>
          (case keygen dev2 rnd n1 of
             None \<Rightarrow> None
           | Some (k2, n2) \<Rightarrow>
               Some (if strdup_ok
                     then Some \<lparr>username = envuser, passwordEnc = xorString_pwd envpass k2,
                                passwordLen = length envpass + 2, key1 = k1, key2 = k2,
                                key1s = bin2hex k1, key2s = bin2hex k2\<rparr>
                     else None, n2)))"

subsection \<open>The UDP listener\<close>

text \<open>Up to 101 random ports are tried; \<open>bind_ok\<close> says which of them are free.\<close>

definition udp_port :: "nat \<Rightarrow> nat" where
  "udp_port r = unat (word_of_nat (40000 + r mod 20000) :: u16)"

function init_udp_bind :: "(nat \<Rightarrow> bool) \<Rightarrow> (nat \<Rightarrow> nat) \<Rightarrow> nat \<Rightarrow> nat \<Rightarrow> nat option \<times> nat" where
  "init_udp_bind bind_ok rnd n tries =
     (let port = udp_port (rnd n)
      in if bind_ok port then (Some port, Suc n)
         else if 100 < Suc tries then (None, Suc n)
         else init_udp_bind bind_ok rnd (Suc n) (Suc tries))"
  by pat_completeness auto
termination
  by (relation "measure (\<lambda>(b, rnd, n, tries). 101 - tries)") auto

declare init_udp_bind.simps [simp del]

record udp_env =
  udp_socket :: bool
  udp_bind :: "nat \<Rightarrow> bool"
  udp_fork :: int
  udp_early :: "int list"

text \<open>
  \<open>udp_early\<close> are the children that the signal handler collects in \<open>init_udp\<close> after the fork and
  before its result is stored in \<open>udpPid\<close>; the source does not block the signal there.
\<close>

text \<open>The parent's side of \<open>init_udp\<close>: the port or -1, the new \<open>udpPid\<close>, the calls of \<open>rand\<close> made.\<close>

definition init_udp :: "udp_env \<Rightarrow> (nat \<Rightarrow> nat) \<Rightarrow> nat \<Rightarrow> int \<Rightarrow> int \<times> int \<times> nat" where
  "init_udp env rnd n pid =
     (if \<not> udp_socket env then (- 1, pid, n)
      else case init_udp_bind (udp_bind env) rnd n 0 of
        (None, n') \<Rightarrow> (- 1, pid, n')
      | (Some port, n') \<Rightarrow>
          if udp_fork env = - 1 then (- 1, - 1, n') else (int port, udp_fork env, n'))"

text \<open>
  The child's loop body: \<open>recvfrom\<close> stores at most \<open>KEYLEN\<close> bytes of the datagram; the encrypted
  password is sent back when they are the first key.
\<close>

definition udp_serve :: "pwstate \<Rightarrow> byte list \<Rightarrow> byte list option" where
  "udp_serve st dgram =
     (let buffer = take KEYLEN dgram
      in if length buffer = KEYLEN \<and> key1 st = buffer
         then Some (take (passwordLen st) (passwordEnc st)) else None)"

subsection \<open>Requests on the unix socket\<close>

record client =
  peer_uid :: "nat option"
  request :: "string option"

definition get_reply :: "pwstate \<Rightarrow> int \<Rightarrow> string" where
  "get_reply st port =
     show_int port @ CHR 0x09 # key1s st @ CHR 0x09 # key2s st @ CHR 0x09 # username st
       @ [CHR ''\<newline>'']"

definition pw_reply :: "pwstate \<Rightarrow> string" where
  "pw_reply st =
     map (\<lambda>i. char_of_byte (passwordEnc st ! (i + 2) XOR key2 st ! (i mod KEYLEN)))
       [0..<min (passwordLen st - 2) 200]"

text \<open>
  The child process that serves one connection: what it writes to the socket. \<open>allowLocal\<close> is
  the value \<open>mode_daemon\<close> reads from \<open>LOCAL_PW\<close>; the source computes it and uses it nowhere.
\<close>

definition handle_client :: "pwstate \<Rightarrow> int \<Rightarrow> bool \<Rightarrow> nat \<Rightarrow> client \<Rightarrow> string" where
  "handle_client st port allowLocal euid c =
     (case peer_uid c of
        None \<Rightarrow> ''Could not get credentials of connection'' @ [CHR ''\<newline>'']
      | Some uid \<Rightarrow>
          if uid \<noteq> euid then ''uid mismatch'' @ [CHR ''\<newline>'']
          else (case request c of
            None \<Rightarrow> []
          | Some buffer \<Rightarrow>
              if 3 \<le> length buffer \<and> take 3 buffer = ''GET''
              then snprintf_buf 200 (get_reply st port)
              else if 2 \<le> length buffer \<and> take 2 buffer = ''PW'' then pw_reply st
              else []))"

text \<open>
  The two clients: \<open>sock\<close> and \<open>conn\<close> say whether \<open>socket\<close> and \<open>connect\<close> succeed, \<open>wr\<close> whether the
  request is written, \<open>rd\<close> is what the socket delivers (\<open>None\<close> for an error). They return the exit
  code and the text printed.
\<close>

definition connect_local :: "bool \<Rightarrow> bool \<Rightarrow> bool" where
  "connect_local sock conn \<longleftrightarrow> sock \<and> conn"

definition mode_query :: "bool \<Rightarrow> bool \<Rightarrow> bool \<Rightarrow> string option \<Rightarrow> int \<times> string" where
  "mode_query sock conn wr rd =
     (if \<not> connect_local sock conn then (1, [])
      else if \<not> wr then (1, [])
      else case rd of
        None \<Rightarrow> (1, [])
      | Some bytes \<Rightarrow>
          (let buffer = take 199 bytes
           in if length buffer < 1 then (1, [])
              else if last buffer \<noteq> CHR ''\<newline>'' then (1, [])
              else (0, cstr buffer)))"

definition mode_pw :: "bool \<Rightarrow> bool \<Rightarrow> bool \<Rightarrow> string option \<Rightarrow> int \<times> string" where
  "mode_pw sock conn wr rd =
     (if \<not> connect_local sock conn then (1, [])
      else if \<not> wr then (1, [])
      else case rd of
        None \<Rightarrow> (1, [])
      | Some bytes \<Rightarrow>
          (let buffer = take 199 bytes
           in if length buffer < 1 then (1, []) else (0, cstr buffer)))"

subsection \<open>Start-up\<close>

record daemon_env =
  env_username :: "string option"
  env_password :: "string option"
  env_pwsocket :: "string option"
  env_local_pw :: "string option"
  env_running :: bool
  env_strdup :: bool
  env_dev1 :: urandom
  env_dev2 :: urandom
  env_rand :: "nat \<Rightarrow> nat"
  env_uid :: nat
  env_euid :: nat
  env_gid :: nat
  env_egid :: nat
  env_socket :: bool
  env_fchmod :: bool
  env_bind :: bool
  env_listen :: bool

datatype action =
    OverwritePassword string
  | Setgroups "nat list"
  | Setregid nat nat
  | Setreuid nat nat
  | Setuid nat
  | Setgid nat
  | SocketUnix
  | Fchmod nat
  | RemoveFile string
  | BindUnix string
  | Listen nat
  | Daemonize
  | SigactionChld

datatype outcome = Exit int | Serve pwstate bool nat

text \<open>\<open>sun_path\<close> holds 108 characters; \<open>strncpy\<close> copies at most 107 of the socket's path.\<close>

definition sun_path :: "string \<Rightarrow> string" where
  "sun_path p = take 107 p"

definition drop_privs :: "string \<Rightarrow> nat \<Rightarrow> action list" where
  "drop_privs envpass uidNumber =
     [OverwritePassword (replicate (length envpass) (CHR '' '')),
      Setgroups [65534], Setregid 65534 65534, Setreuid uidNumber uidNumber, Setuid 0, Setgid 0]"

definition open_socket :: "daemon_env \<Rightarrow> string \<Rightarrow> outcome \<Rightarrow> action list \<times> outcome" where
  "open_socket env pwsocket serve =
     (if \<not> env_socket env then ([SocketUnix], Exit 1)
      else if \<not> env_fchmod env then ([SocketUnix, Fchmod 0x180], Exit 1)
      else let bound = [SocketUnix, Fchmod 0x180, RemoveFile pwsocket, BindUnix (sun_path pwsocket)]
           in if \<not> env_bind env then (bound, Exit 1)
              else if \<not> env_listen env then (bound @ [Listen 10], Exit 1)
              else (bound @ [Listen 10, Daemonize, SigactionChld], serve))"

definition mode_daemon_init :: "daemon_env \<Rightarrow> nat \<Rightarrow> (action list \<times> outcome) option" where
  "mode_daemon_init env uidNumber =
     (let allowLocal = (case env_local_pw env of None \<Rightarrow> False | Some s \<Rightarrow> atoi_glibc s \<noteq> 0)
      in (case env_username env of
        None \<Rightarrow> Some ([], Exit 1)
      | Some envuser \<Rightarrow>
      (case env_password env of
        None \<Rightarrow> Some ([], Exit 1)
      | Some envpass \<Rightarrow>
      (case env_pwsocket env of
        None \<Rightarrow> Some ([], Exit 1)
      | Some pwsocket \<Rightarrow>
          if env_running env then Some ([], Exit 0)
          else (case setup_vars (env_strdup env) (env_dev1 env) (env_dev2 env) (env_rand env)
                      envuser envpass of
            None \<Rightarrow> None
          | Some (None, n) \<Rightarrow> Some ([], Exit 1)
          | Some (Some st, n) \<Rightarrow>
              let privs = drop_privs envpass uidNumber
              in if env_uid env \<noteq> uidNumber \<or> env_euid env \<noteq> uidNumber then Some (privs, Exit 1)
                 else if env_gid env = 0 \<or> env_egid env = 0 then Some (privs, Exit 1)
                 else (case open_socket env pwsocket (Serve st allowLocal n) of
                   (acts, out) \<Rightarrow> Some (privs @ acts, out)))))))"

subsection \<open>The accept loop\<close>

text \<open>
  The parent's state between two events. \<open>stopped\<close> is the exit code once the process has ended
  (a fatal \<open>accept\<close> error, or the UDP listener died), \<open>sent\<close> the replies of the children. \<open>gone\<close> is no
  variable of the code: it records the children collected by \<open>waitpid\<close> since the last fork of
  a listener, so that properties can speak of a listener that is still there.
\<close>

record server =
  srv_pw :: pwstate
  srv_allow :: bool
  srv_port :: int
  srv_pid :: int
  srv_rand :: nat
  srv_stopped :: "int option"
  srv_sent :: "string list"
  srv_gone :: "int list"

datatype errno = EAGAIN | EWOULDBLOCK | EINTR | ECONNABORTED | EOTHER

text \<open>
  The signal may arrive at any time. Handling it before \<open>accept\<close> or after the client's child has been
  forked is the event \<open>Sigchld\<close>; between, it is part of \<open>Accepted\<close>: the last two arguments are the children
  collected after \<open>init_udp\<close> and before the fork, and whether that fork succeeds.
\<close>

datatype event =
    Accepted client udp_env "int list" bool
  | AcceptFailed errno
  | Sigchld "int list"

definition server_init :: "pwstate \<Rightarrow> bool \<Rightarrow> nat \<Rightarrow> server" where
  "server_init st allowLocal n =
     \<lparr>srv_pw = st, srv_allow = allowLocal, srv_port = - 1, srv_pid = - 1, srv_rand = n,
      srv_stopped = None, srv_sent = [], srv_gone = []\<rparr>"

text \<open>\<open>sig_handler\<close>: \<open>pids\<close> are the children \<open>waitpid\<close> reports, in order.\<close>

fun sig_handler :: "int \<Rightarrow> int list \<Rightarrow> int option" where
  "sig_handler udpPid [] = None"
| "sig_handler udpPid (p # ps) =
     (if 0 < p then (if p = udpPid then Some 1 else sig_handler udpPid ps) else None)"

definition reaped :: "int list \<Rightarrow> int list" where
  "reaped pids = takeWhile (\<lambda>p. 0 < p) pids"

definition signalled :: "int list \<Rightarrow> server \<Rightarrow> server" where
  "signalled pids s =
     s\<lparr>srv_stopped := sig_handler (srv_pid s) pids, srv_gone := srv_gone s @ reaped pids\<rparr>"

text \<open>\<open>init_udp\<close> in the running daemon: a signal after the fork still sees the old \<open>udpPid\<close>.\<close>

definition start_listener :: "(nat \<Rightarrow> nat) \<Rightarrow> udp_env \<Rightarrow> server \<Rightarrow> server" where
  "start_listener rnd u s =
     (case init_udp u rnd (srv_rand s) (srv_pid s) of (port, pid, n) \<Rightarrow>
        let s' = signalled (udp_early u) (s\<lparr>srv_gone := []\<rparr>)
        in if srv_stopped s' \<noteq> None then s'
           else s'\<lparr>srv_port := port, srv_pid := pid, srv_rand := n\<rparr>)"

definition accept_client ::
  "(nat \<Rightarrow> nat) \<Rightarrow> nat \<Rightarrow> server \<Rightarrow> client \<Rightarrow> udp_env \<Rightarrow> int list \<Rightarrow> bool \<Rightarrow> server" where
  "accept_client rnd euid s c u late forked =
     (let s1 = (if srv_port s = - 1 then start_listener rnd u s else s)
      in if srv_stopped s1 \<noteq> None then s1
         else let s2 = signalled late s1
              in if srv_stopped s2 \<noteq> None \<or> \<not> forked then s2
                 else s2\<lparr>srv_sent := srv_sent s2 @ [handle_client (srv_pw s2) (srv_port s2) (srv_allow s2) euid c]\<rparr>)"

definition server_step :: "(nat \<Rightarrow> nat) \<Rightarrow> nat \<Rightarrow> server \<Rightarrow> event \<Rightarrow> server" where
  "server_step rnd euid s ev =
     (if srv_stopped s \<noteq> None then s
      else case ev of
        Accepted c u late forked \<Rightarrow> accept_client rnd euid s c u late forked
      | AcceptFailed e \<Rightarrow> if e = EOTHER then s\<lparr>srv_stopped := Some 1\<rparr> else s
      | Sigchld pids \<Rightarrow> signalled pids s)"

subsection \<open>The command line\<close>

datatype run_mode = ModeDaemon nat | ModeQuery string | ModeInvalid int

definition main_pwd :: "string list \<Rightarrow> run_mode" where
  "main_pwd argv =
     (if 2 < length argv \<and> argv ! 1 = ''--daemon'' then
        (let (uid, rest) = c_strtoul (argv ! 2)
         in if argv ! 2 = [] \<or> rest \<noteq> [] then ModeInvalid 1
            else ModeDaemon (unat (ucast uid :: u32)))
      else if 2 < length argv \<and> argv ! 1 = ''--query'' then ModeQuery (argv ! 2)
      else ModeInvalid 1)"

subsection \<open>Keys: length and origin\<close>

lemma keygen_read_cases [simp]:
  "KEYLEN \<le> length key \<Longrightarrow> keygen_read rs key = Some key"
  "length key < KEYLEN \<Longrightarrow> keygen_read [] key = None"
  "length key < KEYLEN \<Longrightarrow> keygen_read (RdEINTR # rs) key = keygen_read rs key"
  "length key < KEYLEN \<Longrightarrow> keygen_read (RdError # rs) key = Some key"
  "length key < KEYLEN \<Longrightarrow> keygen_read (RdData bs # rs) key =
     (if bs = [] then Some key else keygen_read rs (key @ take (KEYLEN - length key) bs))"
  by (simp_all add: keygen_read.simps [of _ key] Let_def)

lemma keygen_read_length:
  "keygen_read rs key = Some k \<Longrightarrow> length key \<le> KEYLEN \<Longrightarrow> length k \<le> KEYLEN"
proof (induction rs arbitrary: key)
  case Nil
  then show ?case by (cases "length key < KEYLEN") auto
next
  case (Cons r rs)
  then show ?case
    by (cases "length key < KEYLEN"; cases r) (auto split: if_splits)
qed

lemma keygen_rand_length:
  "length key \<le> KEYLEN \<Longrightarrow> length (fst (keygen_rand rnd n key)) = KEYLEN"
proof (induction rnd n key rule: keygen_rand.induct)
  case (1 rnd n key)
  then show ?case by (subst keygen_rand.simps) auto
qed

lemma keygen_rand_full: "KEYLEN \<le> length key \<Longrightarrow> keygen_rand rnd n key = (key, n)"
  by (simp add: keygen_rand.simps)

lemma keygen_length:
  assumes "keygen dev rnd n = Some (k, n')"
  shows "length k = KEYLEN"
proof -
  have short: "length key \<le> KEYLEN"
    if "(if c then keygen_read (dev_reads dev) [] else Some []) = Some key" for c key
    using that keygen_read_length [of "dev_reads dev" "[]" key] by (simp split: if_splits)
  let ?usable = "dev_open dev \<and> (case dev_entropy dev of None \<Rightarrow> False | Some e \<Rightarrow> 0 < e)"
  from assms obtain key
    where "(if ?usable then keygen_read (dev_reads dev) [] else Some []) = Some key"
      and "keygen_rand rnd n key = (k, n')"
    by (cases "if ?usable then keygen_read (dev_reads dev) [] else Some []")
       (simp_all add: keygen_def)
  with short keygen_rand_length [of key rnd n] show ?thesis by fastforce
qed

lemma keygen_read_returns:
  "KEYLEN - length key \<le> length (filter (\<lambda>r. r \<noteq> RdEINTR) rs) \<Longrightarrow> \<exists>k. keygen_read rs key = Some k"
proof (induction rs arbitrary: key)
  case Nil
  then show ?case by simp
next
  case (Cons r rs)
  show ?case
  proof (cases "length key < KEYLEN")
    case False
    then show ?thesis by simp
  next
    case True
    with Cons show ?thesis by (cases r) (auto simp: min_def neq_Nil_conv intro!: Cons.IH)
  qed
qed

text \<open>The bytes one result of \<open>read\<close> carries.\<close>

fun read_data :: "sysread \<Rightarrow> byte list" where
  "read_data (RdData bs) = bs"
| "read_data RdEINTR = []"
| "read_data RdError = []"

lemma keygen_read_data:
  assumes "list_all (\<lambda>r. r = RdEINTR \<or> read_data r \<noteq> []) rs"
    and "KEYLEN \<le> length key + length (concat (map read_data rs))" and "length key \<le> KEYLEN"
  shows "keygen_read rs key = Some (take KEYLEN (key @ concat (map read_data rs)))"
  using assms
proof (induction rs arbitrary: key)
  case Nil
  then show ?case by simp
next
  case (Cons r rs)
  show ?case
  proof (cases "length key < KEYLEN")
    case False
    with Cons.prems(3) show ?thesis by simp
  next
    case True
    show ?thesis
    proof (cases r)
      case (RdData bs)
      let ?key' = "key @ take (KEYLEN - length key) bs"
      have "keygen_read rs ?key' = Some (take KEYLEN (?key' @ concat (map read_data rs)))"
        using Cons.prems RdData True by (intro Cons.IH) auto
      with Cons.prems RdData True show ?thesis by (auto simp: min_def)
    qed (use Cons True in auto)
  qed
qed

text \<open>
  C16: when \<open>/dev/urandom\<close> opens, reports entropy and delivers at least 16 bytes in non-empty
  pieces, interrupted or not, \<open>keygen\<close> returns exactly the first 16 of these bytes and makes no
  use of \<open>rand\<close>.
\<close>

theorem keygen_from_urandom:
  assumes "dev_open dev" and "dev_entropy dev = Some e" and "0 < e"
    and "list_all (\<lambda>r. r = RdEINTR \<or> read_data r \<noteq> []) (dev_reads dev)"
    and "16 \<le> length (concat (map read_data (dev_reads dev)))"
  shows "keygen dev rnd n = Some (take 16 (concat (map read_data (dev_reads dev))), n)"
proof -
  have "keygen_read (dev_reads dev) [] = Some (take 16 (concat (map read_data (dev_reads dev))))"
    using keygen_read_data [of "dev_reads dev" "[]"] assms(4,5) by (simp add: KEYLEN_def)
  with assms(1-3,5) show ?thesis
    by (simp add: keygen_def keygen_rand_full KEYLEN_def)
qed

theorem keygen_from_urandom_witness:
  "keygen \<lparr>dev_open = True, dev_entropy = Some 256,
      dev_reads = [RdEINTR, RdData [1, 2, 3, 4, 5], RdData (replicate 20 7)]\<rparr> (\<lambda>_. 0) 3
   = Some ([1, 2, 3, 4, 5] @ replicate 11 7, 3)"
  using keygen_from_urandom [of "\<lparr>dev_open = True, dev_entropy = Some 256,
      dev_reads = [RdEINTR, RdData [1, 2, 3, 4, 5], RdData (replicate 20 7)]\<rparr>" 256 "\<lambda>_. 0" 3]
  by simp

text \<open>
  \<open>keygen\<close> returns a key of exactly 16 bytes whatever the device does, as long as 16 of the
  results of \<open>read\<close> are not interrupts: errors, end of file and short reads are made up for by
  \<open>rand\<close>. An unusable device needs no result at all.
\<close>

theorem keygen_total:
  assumes "dev_open dev \<longrightarrow> 16 \<le> length (filter (\<lambda>r. r \<noteq> RdEINTR) (dev_reads dev))"
  shows "\<exists>k n'. keygen dev rnd n = Some (k, n') \<and> length k = 16"
proof -
  have "\<exists>k. keygen dev rnd n = Some k"
    using assms keygen_read_returns [of "[]" "dev_reads dev"]
    by (auto simp: keygen_def KEYLEN_def split: option.splits)
  then show ?thesis using keygen_length by (fastforce simp: KEYLEN_def)
qed

theorem keygen_total_witness:
  "\<exists>k n'. keygen \<lparr>dev_open = True, dev_entropy = Some 8, dev_reads = replicate 16 RdError\<rparr> (\<lambda>i. i) 0
     = Some (k, n') \<and> length k = 16"
  by (rule keygen_total) simp

subsection \<open>Encryption\<close>

lemma ucast_high_mask: "(ucast ((w :: u64) AND 0xff00) :: byte) = 0"
  by transfer simp

lemma ucast_low_mask: "(ucast ((word_of_nat n :: u64) AND 0xff) :: byte) = word_of_nat n"
proof -
  have "int (take_bit 8 m) AND 255 = int (take_bit 8 m)" for m :: nat
  proof -
    have "(255 :: int) = mask 8" by (simp add: mask_eq_exp_minus_1)
    then show ?thesis by (simp only: take_bit_eq_mask [symmetric]) (simp add: take_bit_of_nat)
  qed
  then show ?thesis by transfer (simp add: take_bit_of_nat)
qed

lemma xorString_pwd_eq:
  "xorString_pwd p k =
     0 # word_of_nat (length p)
       # map (\<lambda>i. byte_of_char (p ! i) XOR k ! (i mod KEYLEN)) [0..<length p]"
  by (simp add: xorString_pwd_def ucast_high_mask ucast_low_mask)

lemma length_xorString_pwd [simp]: "length (xorString_pwd p k) = length p + 2"
  by (simp add: xorString_pwd_eq)

text \<open>
  The two-byte length prefix of an encrypted password holds the length modulo 256, for every
  password and key. The high byte is always 0, so the prefix of a password of 256 or more
  characters is not its length.
\<close>

theorem xorString_pwd_length_prefix:
  "xorString_pwd p k ! 0 = 0 \<and>
   256 * unat (xorString_pwd p k ! 0) + unat (xorString_pwd p k ! 1) = length p mod 256"
  by (simp add: xorString_pwd_eq unsigned_of_nat take_bit_eq_mod)

subsection \<open>The states the start-up produces\<close>

text \<open>A state in which the stored password is the encryption of \<open>p\<close> for user \<open>u\<close>.\<close>

definition holds_password :: "pwstate \<Rightarrow> string \<Rightarrow> string \<Rightarrow> bool" where
  "holds_password st u p \<longleftrightarrow>
     length (key1 st) = KEYLEN \<and> length (key2 st) = KEYLEN \<and>
     key1s st = bin2hex (key1 st) \<and> key2s st = bin2hex (key2 st) \<and> username st = u \<and>
     passwordEnc st = xorString_pwd p (key2 st) \<and> passwordLen st = length p + 2"

lemma setup_vars_holds_password:
  assumes "setup_vars ok d1 d2 rnd u p = Some (Some st, n)"
  shows "holds_password st u p"
proof -
  from assms obtain k1 n1 k2 n2
    where "keygen d1 rnd 0 = Some (k1, n1)" and "keygen d2 rnd n1 = Some (k2, n2)"
      and "st = \<lparr>username = u, passwordEnc = xorString_pwd p k2, passwordLen = length p + 2,
               key1 = k1, key2 = k2, key1s = bin2hex k1, key2s = bin2hex k2\<rparr>"
    by (auto simp: setup_vars_def split: option.splits if_splits)
  then show ?thesis by (auto simp: holds_password_def dest: keygen_length)
qed

lemma length_bin2hex: "length (bin2hex bs) = 2 * length bs"
  by (induction bs) (simp_all add: bin2hex_def)

lemma hexconvtab_chars: "n < 16 \<Longrightarrow> hexconvtab ! n \<in> set hexconvtab"
  by (rule nth_mem) (simp add: hexconvtab_def)

lemma nibbles_less_16: "unat (drop_bit 4 (b :: byte)) < 16" "unat ((b :: byte) AND 0xf) < 16"
proof -
  have "unat b < 256" using unsigned_less [of b] by simp
  then show "unat (drop_bit 4 b) < 16"
    by (simp only: unat_drop_bit_eq) (simp add: drop_bit_eq_div less_mult_imp_div_less)
  have "b AND 0xf \<le> 0xf" by (rule word_and_le1)
  then have "unat (b AND 0xf) \<le> unat (0xf :: byte)" by (simp add: word_le_nat_alt)
  then show "unat (b AND 0xf) < 16" by simp
qed

lemma set_bin2hex: "set (bin2hex bs) \<subseteq> set hexconvtab"
  using nibbles_less_16 hexconvtab_chars by (fastforce simp: bin2hex_def)

subsection \<open>Requests\<close>

lemma xor_twice [simp]: "(b XOR k) XOR k = (b :: byte)"
  by (simp add: xor.assoc)

lemma pw_reply_plain:
  assumes "holds_password st u p"
  shows "pw_reply st = take 200 p"
proof -
  have "pw_reply st = map (\<lambda>i. p ! i) [0..<min (length p) 200]"
    using assms by (auto simp: pw_reply_def holds_password_def xorString_pwd_eq)
  also have "\<dots> = take 200 p"
    by (rule nth_equalityI) auto
  finally show ?thesis .
qed

text \<open>
  C2: a connection of another user, or one whose credentials the kernel does not report, learns
  nothing: the reply is the same for every password, key, user name, port and \<open>LOCAL_PW\<close>.
\<close>

theorem handle_client_foreign_uid:
  assumes "peer_uid c \<noteq> Some euid"
  shows "handle_client st port a euid c = handle_client st' port' a' euid c"
  using assms by (auto simp: handle_client_def split: option.splits)

theorem handle_client_foreign_uid_witness:
  "handle_client \<lparr>username = ''u'', passwordEnc = [0, 1, 5], passwordLen = 3, key1 = [1], key2 = [4],
       key1s = ''01'', key2s = ''04''\<rparr> 41000 True 1000 \<lparr>peer_uid = Some 1001, request = Some ''PW''\<rparr>
   = handle_client \<lparr>username = ''v'', passwordEnc = [0, 1, 9], passwordLen = 3, key1 = [2], key2 = [7],
       key1s = ''02'', key2s = ''07''\<rparr> 42000 False 1000 \<lparr>peer_uid = Some 1001, request = Some ''PW''\<rparr>"
  by (rule handle_client_foreign_uid) simp

text \<open>A device that delivers 16 equal bytes, used by the examples below.\<close>

lemma setup_vars_example:
  "setup_vars True \<lparr>dev_open = True, dev_entropy = Some 1, dev_reads = [RdData (replicate 16 a)]\<rparr>
     \<lparr>dev_open = True, dev_entropy = Some 1, dev_reads = [RdData (replicate 16 b)]\<rparr> rnd u p
   = Some (Some \<lparr>username = u, passwordEnc = xorString_pwd p (replicate 16 b),
        passwordLen = length p + 2, key1 = replicate 16 a, key2 = replicate 16 b,
        key1s = bin2hex (replicate 16 a), key2s = bin2hex (replicate 16 b)\<rparr>, 0)"
  by (simp add: setup_vars_def keygen_def KEYLEN_def keygen_rand.simps)

text \<open>
  C40: a client of the same user that sends \<open>PW\<close> is told the password in plain text (its first
  200 characters), whether \<open>LOCAL_PW\<close> allows local queries or not.
\<close>

theorem pw_request_ignores_local_pw:
  assumes "setup_vars ok d1 d2 rnd u p = Some (Some st, n)"
  shows "handle_client st port allowLocal euid \<lparr>peer_uid = Some euid, request = Some (''PW'' @ junk)\<rparr>
           = take 200 p"
  using setup_vars_holds_password [OF assms]
  by (simp add: handle_client_def pw_reply_plain)

theorem pw_request_ignores_local_pw_witness:
  "handle_client \<lparr>username = ''u'', passwordEnc = xorString_pwd ''secret'' (replicate 16 9),
        passwordLen = length ''secret'' + 2, key1 = replicate 16 5, key2 = replicate 16 9,
        key1s = bin2hex (replicate 16 5), key2s = bin2hex (replicate 16 9)\<rparr>
     41000 False 1000 \<lparr>peer_uid = Some 1000, request = Some ''PW''\<rparr> = ''secret''"
  using pw_request_ignores_local_pw [OF setup_vars_example [of 5 9 "\<lambda>_. 0" "''u''" "''secret''"],
      of 41000 False 1000 "[]"]
  by simp

lemma show_nat_port_length:
  assumes "10000 \<le> n" and "n < 100000"
  shows "length (show_nat n) = 5"
proof -
  have "n div 10 \<ge> 1000" "n div 10 div 10 \<ge> 100" "n div 10 div 10 div 10 \<ge> 10"
    "n div 10 div 10 div 10 div 10 \<ge> 1" "n div 10 div 10 div 10 div 10 < 10"
    using assms by auto
  with assms(1) show ?thesis
    by (simp add: show_nat.simps [of n] show_nat.simps [of "n div 10"]
        show_nat.simps [of "n div 10 div 10"] show_nat.simps [of "n div 10 div 10 div 10"]
        show_nat.simps [of "n div 10 div 10 div 10 div 10"])
qed

lemma length_get_reply:
  assumes "holds_password st u p" and "10000 \<le> port" and "port < 100000"
  shows "length (get_reply st port) = 73 + length u"
  using assms show_nat_port_length [of "nat port"]
  by (simp add: get_reply_def holds_password_def show_int_def length_bin2hex KEYLEN_def)

lemma get_reply_no_NUL:
  assumes "holds_password st u p" and "0 \<le> port" and "NUL \<notin> set u"
  shows "NUL \<notin> set (get_reply st port)"
proof -
  have "NUL \<notin> set (show_nat (nat port))"
    using show_nat_digits c_isdigit_not_NUL by blast
  moreover have "NUL \<notin> set (bin2hex k)" for k
    using set_bin2hex [of k] by (auto simp: hexconvtab_def NUL_def)
  ultimately show ?thesis
    using assms by (auto simp: get_reply_def show_int_def holds_password_def NUL_def)
qed

lemma mode_query_complete:
  assumes "holds_password st u p" and "NUL \<notin> set u" and "length u \<le> 126"
    and "40000 \<le> port" and "port < 60000"
  shows "mode_query True True True
           (Some (handle_client st port a euid \<lparr>peer_uid = Some euid, request = Some ''GET''\<rparr>))
         = (0, get_reply st port)"
proof -
  have len: "length (get_reply st port) = 73 + length u"
    using length_get_reply [OF assms(1)] assms(4,5) by simp
  with assms(3) have "snprintf_buf 200 (get_reply st port) = get_reply st port"
    by (simp add: snprintf_buf_def)
  moreover have "NUL \<notin> set (get_reply st port)"
    using get_reply_no_NUL [OF assms(1) _ assms(2), of port] assms(4) by simp
  moreover have "last (get_reply st port) = CHR ''\<newline>''" by (simp add: get_reply_def)
  ultimately show ?thesis
    using len assms(3) by (auto simp: handle_client_def mode_query_def connect_local_def Let_def)
qed

text \<open>
  C17: \<open>pwdaemon --query\<close> against a running daemon of the same user prints the complete line
  \<open>port, key1, key2, user\<close> exactly when the user name has at most 126 characters; with a longer
  name the line is cut at 199 characters, has no newline at its end and the query fails with
  exit code 1.
\<close>

theorem query_get_roundtrip:
  assumes "setup_vars ok d1 d2 rnd u p = Some (Some st, n)" and "NUL \<notin> set u"
    and "CHR ''\<newline>'' \<notin> set u" and "40000 \<le> port" and "port < 60000"
  shows "mode_query True True True
           (Some (handle_client st port a euid \<lparr>peer_uid = Some euid, request = Some ''GET''\<rparr>))
         = (if length u \<le> 126 then (0, get_reply st port) else (1, []))"
proof -
  have hp: "holds_password st u p" by (rule setup_vars_holds_password [OF assms(1)])
  have len: "length (get_reply st port) = 73 + length u"
    using length_get_reply [OF hp] assms(4,5) by simp
  let ?reply = "snprintf_buf 200 (get_reply st port)"
  have client: "handle_client st port a euid \<lparr>peer_uid = Some euid, request = Some ''GET''\<rparr> = ?reply"
    by (simp add: handle_client_def)
  show ?thesis
  proof (cases "length u \<le> 126")
    case True
    with mode_query_complete [OF hp assms(2) True assms(4,5)] show ?thesis by simp
  next
    case False
    then have "?reply = take 199 (get_reply st port)" "length ?reply = 199"
      using len by (auto simp: snprintf_buf_def)
    then have "last ?reply = get_reply st port ! 198"
      using last_conv_nth [of ?reply] nth_take [of 198 199 "get_reply st port"] by fastforce
    also have "\<dots> \<in> set u"
    proof -
      have "get_reply st port ! 198 = u ! (198 - 72)"
        using hp assms(4,5) show_nat_port_length [of "nat port"] False
        by (simp add: get_reply_def holds_password_def show_int_def nth_append length_bin2hex
            KEYLEN_def)
      then show ?thesis using False by simp
    qed
    finally have "last ?reply \<noteq> CHR ''\<newline>''" using assms(3) by auto
    with False \<open>length ?reply = 199\<close> show ?thesis
      by (auto simp: client mode_query_def connect_local_def Let_def)
  qed
qed

theorem query_get_roundtrip_witness:
  "mode_query True True True
     (Some (handle_client \<lparr>username = ''u'', passwordEnc = xorString_pwd ''secret'' (replicate 16 9),
        passwordLen = length ''secret'' + 2, key1 = replicate 16 5, key2 = replicate 16 9,
        key1s = bin2hex (replicate 16 5), key2s = bin2hex (replicate 16 9)\<rparr>
        41000 False 1000 \<lparr>peer_uid = Some 1000, request = Some ''GET''\<rparr>))
   = (0, get_reply \<lparr>username = ''u'', passwordEnc = xorString_pwd ''secret'' (replicate 16 9),
        passwordLen = length ''secret'' + 2, key1 = replicate 16 5, key2 = replicate 16 9,
        key1s = bin2hex (replicate 16 5), key2s = bin2hex (replicate 16 9)\<rparr> 41000)"
  using query_get_roundtrip [OF setup_vars_example [of 5 9 "\<lambda>_. 0" "''u''" "''secret''"],
      of 41000 False 1000]
  by (simp add: NUL_def)

subsection \<open>Start-up\<close>

text \<open>
  The specification: everything a successful start does to the process, in order, written out as
  one list.
\<close>

definition full_startup :: "string \<Rightarrow> string \<Rightarrow> nat \<Rightarrow> action list" where
  "full_startup pass sock uid =
     [OverwritePassword (replicate (length pass) (CHR '' '')), Setgroups [65534], Setregid 65534 65534,
      Setreuid uid uid, Setuid 0, Setgid 0,
      SocketUnix, Fchmod 0x180, RemoveFile sock, BindUnix (take 107 sock), Listen 10, Daemonize,
      SigactionChld]"

lemma full_startup_split:
  "full_startup pass sock uid = drop_privs pass uid @
     [SocketUnix, Fchmod 0x180, RemoveFile sock, BindUnix (sun_path sock), Listen 10, Daemonize, SigactionChld]"
  by (simp add: full_startup_def drop_privs_def sun_path_def)

lemma open_socket_prefix:
  "open_socket env sock serve = (acts, out) \<Longrightarrow>
     prefix acts [SocketUnix, Fchmod 0x180, RemoveFile sock, BindUnix (sun_path sock), Listen 10,
                  Daemonize, SigactionChld] \<and>
     (out = Exit 1 \<or>
      out = serve \<and> acts = [SocketUnix, Fchmod 0x180, RemoveFile sock, BindUnix (sun_path sock),
                             Listen 10, Daemonize, SigactionChld])"
  by (auto simp: open_socket_def Let_def split: if_splits)

lemma no_socket_in_drop_privs: "SocketUnix \<notin> set (drop_privs pass uid)"
  by (simp add: drop_privs_def)

lemma mode_daemon_init_cases:
  assumes "mode_daemon_init env uid = Some (acts, out)"
    and "env_password env = Some pass" and "env_pwsocket env = Some sock"
  obtains (no_drop) code where "acts = []" and "out = Exit code"
  | (bad_ids) "acts = drop_privs pass uid" and "out = Exit 1"
  | (socket) u st n sacts where "env_username env = Some u"
      and "setup_vars (env_strdup env) (env_dev1 env) (env_dev2 env) (env_rand env) u pass = Some (Some st, n)"
      and "env_uid env = uid" and "env_euid env = uid" and "env_gid env \<noteq> 0" and "env_egid env \<noteq> 0"
      and "open_socket env sock (Serve st (case env_local_pw env of None \<Rightarrow> False | Some s \<Rightarrow> atoi_glibc s \<noteq> 0) n)
             = (sacts, out)"
      and "acts = drop_privs pass uid @ sacts"
  using assms unfolding mode_daemon_init_def Let_def
  by (auto split: option.splits if_splits prod.splits)

text \<open>
  C3: whatever the system calls return, the actions of the start-up are a prefix of one fixed
  sequence: the password is overwritten with spaces in the environment, the supplementary groups are
  replaced by 65534, group and user are set, and only then a socket is created, given the mode
  0600, bound, listened on, and the process detached. A socket is only
  created when the process runs with the requested uid and with no root group, and when the
  accept loop is reached the state holds the encrypted password.
\<close>

theorem daemon_startup_order:
  assumes "mode_daemon_init env uid = Some (acts, out)"
    and "env_password env = Some pass" and "env_pwsocket env = Some sock"
  shows "prefix acts (full_startup pass sock uid) \<and>
         (SocketUnix \<in> set acts \<longrightarrow>
            env_uid env = uid \<and> env_euid env = uid \<and> env_gid env \<noteq> 0 \<and> env_egid env \<noteq> 0) \<and>
         (\<forall>st a n. out = Serve st a n \<longrightarrow>
            acts = full_startup pass sock uid \<and> holds_password st (the (env_username env)) pass)"
  using assms
proof (cases rule: mode_daemon_init_cases)
  case no_drop
  then show ?thesis by simp
next
  case bad_ids
  then show ?thesis by (simp add: full_startup_split no_socket_in_drop_privs)
next
  case (socket u st n sacts)
  note pre = open_socket_prefix [OF socket(7)]
  from pre have "prefix acts (full_startup pass sock uid)"
    by (simp add: socket(8) full_startup_split)
  moreover have "acts = full_startup pass sock uid \<and> holds_password st' u pass"
    if "out = Serve st' a n'" for st' a n'
  proof -
    from pre that have "st' = st" and "acts = full_startup pass sock uid"
      by (auto simp: socket(8) full_startup_split)
    with socket(2) setup_vars_holds_password show ?thesis by blast
  qed
  ultimately show ?thesis using socket(1,3-6) by auto
qed

theorem daemon_startup_order_witness:
  "\<exists>st. mode_daemon_init
     \<lparr>env_username = Some ''u'', env_password = Some ''pw'', env_pwsocket = Some ''/run/s'',
       env_local_pw = None, env_running = False, env_strdup = True,
       env_dev1 = \<lparr>dev_open = True, dev_entropy = Some 1, dev_reads = [RdData (replicate 16 5)]\<rparr>,
       env_dev2 = \<lparr>dev_open = True, dev_entropy = Some 1, dev_reads = [RdData (replicate 16 9)]\<rparr>,
       env_rand = (\<lambda>_. 0), env_uid = 1000, env_euid = 1000, env_gid = 65534, env_egid = 65534,
       env_socket = True, env_fchmod = True, env_bind = True, env_listen = True\<rparr> 1000
     = Some (full_startup ''pw'' ''/run/s'' 1000, Serve st False 0) \<and> holds_password st ''u'' ''pw''"
proof -
  let ?env = "\<lparr>env_username = Some ''u'', env_password = Some ''pw'', env_pwsocket = Some ''/run/s'',
       env_local_pw = None, env_running = False, env_strdup = True,
       env_dev1 = \<lparr>dev_open = True, dev_entropy = Some 1, dev_reads = [RdData (replicate 16 5)]\<rparr>,
       env_dev2 = \<lparr>dev_open = True, dev_entropy = Some 1, dev_reads = [RdData (replicate 16 9)]\<rparr>,
       env_rand = (\<lambda>_. 0), env_uid = 1000, env_euid = 1000, env_gid = 65534, env_egid = 65534,
       env_socket = True, env_fchmod = True, env_bind = True, env_listen = True\<rparr>"
  have run: "\<exists>st. mode_daemon_init ?env 1000 = Some (full_startup ''pw'' ''/run/s'' 1000, Serve st False 0)"
    by (simp add: mode_daemon_init_def setup_vars_example open_socket_def full_startup_split)
  then show ?thesis using daemon_startup_order [of ?env 1000] by fastforce
qed

subsection \<open>The UDP port\<close>

lemma udp_port_range: "40000 \<le> udp_port r \<and> udp_port r < 60000"
proof -
  have r: "r mod 20000 < 20000" by simp
  then have "take_bit 16 (40000 + r mod 20000) = 40000 + r mod 20000"
    by (simp add: take_bit_nat_eq_self)
  then have "udp_port r = 40000 + r mod 20000"
    unfolding udp_port_def by (simp only: unsigned_of_nat) simp
  with r show ?thesis by linarith
qed

lemma init_udp_bind_range:
  "init_udp_bind b rnd n tries = (Some port, n') \<Longrightarrow> 40000 \<le> port \<and> port < 60000 \<and> b port"
proof (induction b rnd n tries rule: init_udp_bind.induct)
  case (1 b rnd n tries)
  from 1(2) show ?case
    by (subst (asm) init_udp_bind.simps)
       (use "1.IH" udp_port_range in \<open>auto simp: Let_def split: if_splits\<close>)
qed

text \<open>The first of the remaining tries whose port is free wins.\<close>

lemma init_udp_bind_first:
  assumes "b (udp_port (rnd (n + k)))" and "\<And>j. j < k \<Longrightarrow> \<not> b (udp_port (rnd (n + j)))"
    and "tries + k \<le> 100"
  shows "init_udp_bind b rnd n tries = (Some (udp_port (rnd (n + k))), n + k + 1)"
  using assms
proof (induction k arbitrary: n tries)
  case 0
  then show ?case by (simp add: init_udp_bind.simps)
next
  case (Suc k)
  have "init_udp_bind b rnd (Suc n) (Suc tries) = (Some (udp_port (rnd (Suc n + k))), Suc n + k + 1)"
  proof (rule Suc.IH)
    show "\<not> b (udp_port (rnd (Suc n + j)))" if "j < k" for j
      using Suc.prems(2) [of "Suc j"] that by simp
  qed (use Suc.prems in auto)
  moreover have "\<not> b (udp_port (rnd n))" using Suc.prems(2) [of 0] by simp
  ultimately show ?case
    using Suc.prems(3) by (simp add: init_udp_bind.simps [of b rnd n tries])
qed

text \<open>
  \<open>init_udp\<close> finds a port whenever one of the first 101 random candidates is free and the
  listener can be forked: it returns the first free candidate, a port from 40000 to 59999, and the
  listener's pid. When all 101 are taken it gives up with -1.
\<close>

theorem init_udp_first_free:
  assumes "udp_socket env" and "udp_fork env \<noteq> - 1" and "k \<le> 100"
    and "udp_bind env (udp_port (rnd (n + k)))"
    and "\<forall>j < k. \<not> udp_bind env (udp_port (rnd (n + j)))"
  shows "init_udp env rnd n pid = (int (udp_port (rnd (n + k))), udp_fork env, n + k + 1) \<and>
         40000 \<le> udp_port (rnd (n + k)) \<and> udp_port (rnd (n + k)) < 60000"
  using assms init_udp_bind_first [of "udp_bind env" rnd n k 0] udp_port_range
  by (simp add: init_udp_def)

theorem init_udp_first_free_witness:
  "init_udp \<lparr>udp_socket = True, udp_bind = (\<lambda>p. p \<noteq> 40000), udp_fork = 77, udp_early = []\<rparr> (\<lambda>i. i) 0 (- 1)
     = (40001, 77, 2)"
proof -
  have ports: "udp_port 0 = 40000" "udp_port 1 = 40001"
    by (simp_all add: udp_port_def)
  then show ?thesis
    using init_udp_first_free [of "\<lparr>udp_socket = True, udp_bind = (\<lambda>p. p \<noteq> 40000), udp_fork = 77, udp_early = []\<rparr>"
        1 "\<lambda>i. i" 0 "- 1"] by simp
qed

subsection \<open>The accept loop: one listener, and it is alive\<close>

text \<open>
  The daemon ends with exit code 1 on a child exit signal exactly when the UDP listener is
  among the children reaped before \<open>waitpid\<close> reports no more of them.
\<close>

theorem sig_handler_listener_died:
  "sig_handler udpPid pids = (if udpPid \<in> set (reaped pids) then Some 1 else None)"
  by (induction udpPid pids rule: sig_handler.induct) (auto simp: reaped_def)

text \<open>\<open>fork\<close> returns -1 or the pid of the child.\<close>

definition fork_ok :: "event \<Rightarrow> bool" where
  "fork_ok ev \<longleftrightarrow> (case ev of Accepted c u late f \<Rightarrow> udp_fork u = - 1 \<or> 0 < udp_fork u | _ \<Rightarrow> True)"

text \<open>The listener does not end before its pid has been stored.\<close>

definition no_race :: "event \<Rightarrow> bool" where
  "no_race ev \<longleftrightarrow> (case ev of Accepted c u late f \<Rightarrow> udp_fork u \<notin> set (reaped (udp_early u)) | _ \<Rightarrow> True)"

text \<open>Either there is no listener and no port, or both, and the port is one \<open>init_udp\<close> can pick.\<close>

definition listener_ok :: "server \<Rightarrow> bool" where
  "listener_ok s \<longleftrightarrow>
     srv_port s = - 1 \<and> srv_pid s = - 1 \<or>
     40000 \<le> srv_port s \<and> srv_port s < 60000 \<and> 0 < srv_pid s"

text \<open>A running daemon that tells a port has not collected the process that listens on it.\<close>

definition listener_alive :: "server \<Rightarrow> bool" where
  "listener_alive s \<longleftrightarrow> (srv_stopped s = None \<and> srv_port s \<noteq> - 1 \<longrightarrow> srv_pid s \<notin> set (srv_gone s))"

lemma init_udp_listener:
  assumes "init_udp u rnd n (- 1) = (port, pid, n')" and "udp_fork u = - 1 \<or> 0 < udp_fork u"
  shows "port = - 1 \<and> pid = - 1 \<or> 40000 \<le> port \<and> port < 60000 \<and> 0 < pid \<and> pid = udp_fork u"
  using assms init_udp_bind_range [of "udp_bind u" rnd n 0]
  by (auto simp: init_udp_def split: if_splits prod.splits option.splits)

lemma signalled_fields [simp]:
  "srv_port (signalled pids s) = srv_port s" "srv_pid (signalled pids s) = srv_pid s"
  "srv_gone (signalled pids s) = srv_gone s @ reaped pids"
  "srv_stopped (signalled pids s) = (if srv_pid s \<in> set (reaped pids) then Some 1 else None)"
  by (simp_all add: signalled_def sig_handler_listener_died)

lemma signalled_alive: "listener_alive s \<Longrightarrow> srv_stopped s = None \<Longrightarrow> listener_alive (signalled pids s)"
  by (simp add: listener_alive_def)

lemma start_listener_ok:
  assumes "srv_port s = - 1" and "listener_ok s" and "udp_fork u = - 1 \<or> 0 < udp_fork u"
  shows "listener_ok (start_listener rnd u s) \<and>
    (udp_fork u \<notin> set (reaped (udp_early u)) \<longrightarrow> listener_alive (start_listener rnd u s))"
proof -
  have pid: "srv_pid s = - 1" using assms(1,2) by (simp add: listener_ok_def)
  have "- 1 \<notin> set (reaped (udp_early u))" by (auto simp: reaped_def dest: set_takeWhileD)
  moreover obtain port pid' n where init: "init_udp u rnd (srv_rand s) (- 1) = (port, pid', n)"
    by (metis prod_cases3)
  ultimately show ?thesis
    using init_udp_listener [OF init assms(3)] pid
    by (auto simp: start_listener_def listener_ok_def listener_alive_def Let_def)
qed

lemma accept_client_ok:
  assumes "listener_ok s" and "srv_stopped s = None" and "udp_fork u = - 1 \<or> 0 < udp_fork u"
  shows "listener_ok (accept_client rnd euid s c u late f)"
proof -
  define s1 where "s1 = (if srv_port s = - 1 then start_listener rnd u s else s)"
  have "listener_ok s1" using start_listener_ok [of s u rnd] assms by (simp add: s1_def)
  then show ?thesis by (auto simp: accept_client_def s1_def [symmetric] listener_ok_def Let_def)
qed

lemma accept_client_alive:
  assumes "listener_ok s" and "listener_alive s" and "srv_stopped s = None"
    and "udp_fork u = - 1 \<or> 0 < udp_fork u" and "udp_fork u \<notin> set (reaped (udp_early u))"
  shows "listener_alive (accept_client rnd euid s c u late f)"
proof -
  define s1 where "s1 = (if srv_port s = - 1 then start_listener rnd u s else s)"
  have "listener_alive s1" using start_listener_ok [of s u rnd] assms by (simp add: s1_def)
  then show ?thesis
    using signalled_alive [of s1 late]
    by (auto simp: accept_client_def s1_def [symmetric] listener_alive_def Let_def)
qed

interpretation accept_loop: invariant_machine "server_step rnd euid" fork_ok listener_ok
  for rnd euid
proof
  fix s ev
  assume "listener_ok s" and "fork_ok ev"
  then show "listener_ok (server_step rnd euid s ev)"
    by (auto simp: server_step_def fork_ok_def accept_client_ok split: event.splits)
       (auto simp: listener_ok_def)
qed

interpretation live_loop: invariant_machine "server_step rnd euid" "\<lambda>ev. fork_ok ev \<and> no_race ev"
    "\<lambda>s. listener_ok s \<and> listener_alive s"
  for rnd euid
proof
  fix s ev
  assume s: "listener_ok s \<and> listener_alive s" and ev: "fork_ok ev \<and> no_race ev"
  have "listener_alive (server_step rnd euid s ev)"
    using s ev by (auto simp: server_step_def fork_ok_def no_race_def accept_client_alive signalled_alive
        split: event.splits) (auto simp: listener_alive_def)
  with s ev accept_loop.step_good show
    "listener_ok (server_step rnd euid s ev) \<and> listener_alive (server_step rnd euid s ev)" by blast
qed

lemma server_step_port_kept:
  "srv_port s \<noteq> - 1 \<Longrightarrow>
     srv_port (server_step rnd euid s ev) = srv_port s \<and> srv_pid (server_step rnd euid s ev) = srv_pid s"
  by (auto simp: server_step_def accept_client_def Let_def split: event.splits option.splits)

interpretation port_latch: invariant_machine "server_step rnd euid" "\<lambda>_. True"
    "\<lambda>s. srv_port s = p \<and> srv_pid s = pid \<and> p \<noteq> - 1"
  for rnd euid p pid
  by unfold_locales (use server_step_port_kept in auto)

text \<open>
  C9: in every state the accept loop reaches, the port it tells its clients is -1 with no
  listener pid, or a port from 40000 to 59999 and a positive listener pid. Once
  it has told a port, no sequence of connections, accept errors and child exits changes port or
  listener. And while the daemon runs and tells a port, the listener has not been
  collected as a dead child, provided that no listener ends between its fork and the moment its pid
  is stored.
\<close>

theorem accept_loop_single_listener:
  assumes "list_all fork_ok es" and "list_all fork_ok es'"
    and "s = foldl (server_step rnd euid) (server_init st a n) es"
    and "s' = foldl (server_step rnd euid) s es'"
  shows "listener_ok s \<and> listener_ok s' \<and>
         (srv_port s \<noteq> - 1 \<longrightarrow> srv_port s' = srv_port s \<and> srv_pid s' = srv_pid s) \<and>
         (list_all no_race es \<and> srv_stopped s = None \<and> srv_port s \<noteq> - 1 \<longrightarrow>
            srv_pid s \<notin> set (srv_gone s))"
proof -
  have init: "listener_ok (server_init st a n)" "listener_alive (server_init st a n)"
    by (simp_all add: listener_ok_def listener_alive_def server_init_def)
  then have s: "listener_ok s"
    using accept_loop.run_good [OF init(1) assms(1)] by (simp add: assms(3))
  then have "listener_ok s'"
    using assms(2) unfolding assms(4) by (rule accept_loop.run_good)
  moreover have "srv_port s' = srv_port s \<and> srv_pid s' = srv_pid s" if "srv_port s \<noteq> - 1"
    using port_latch.run_good [of s "srv_port s" "srv_pid s" es' rnd euid] that
    by (simp add: assms(4) list_all_iff)
  moreover have "listener_alive s" if "list_all no_race es"
    using live_loop.run_good [of "server_init st a n" es rnd euid] init assms(1) that
    by (simp add: assms(3) list_all_iff)
  ultimately show ?thesis using s by (auto simp: listener_alive_def)
qed

definition example_pwstate :: pwstate where
  "example_pwstate = \<lparr>username = ''u'', passwordEnc = [], passwordLen = 0, key1 = [], key2 = [],
     key1s = [], key2s = []\<rparr>"

definition example_accept :: "int list \<Rightarrow> event" where
  "example_accept early = Accepted \<lparr>peer_uid = None, request = None\<rparr>
     \<lparr>udp_socket = True, udp_bind = (\<lambda>_. True), udp_fork = 77, udp_early = early\<rparr> [] True"

lemma example_accept_run:
  "foldl (server_step (\<lambda>i. i) 1000) (server_init example_pwstate False 0) [example_accept early, AcceptFailed EINTR]
     = (server_init example_pwstate False 0)\<lparr>srv_port := 40000, srv_pid := 77, srv_rand := 1,
         srv_sent := [handle_client example_pwstate 40000 False 1000 \<lparr>peer_uid = None, request = None\<rparr>],
         srv_gone := reaped early\<rparr>"
proof -
  have "- 1 \<notin> set (reaped early)" by (auto simp: reaped_def dest: set_takeWhileD)
  then show ?thesis
    by (simp add: server_step_def example_accept_def accept_client_def start_listener_def signalled_def
        server_init_def init_udp_def init_udp_bind.simps udp_port_def Let_def sig_handler_listener_died)
       (simp add: reaped_def)
qed

theorem accept_loop_single_listener_witness:
  "\<exists>s. s = foldl (server_step (\<lambda>i. i) 1000) (server_init example_pwstate False 0)
      [example_accept [], AcceptFailed EINTR] \<and> srv_port s = 40000 \<and> srv_stopped s = None \<and>
    srv_pid s \<notin> set (srv_gone s)"
  using accept_loop_single_listener [of "[example_accept [], AcceptFailed EINTR]" "[]" _ "\<lambda>i. i" 1000
      example_pwstate False 0, OF _ _ refl refl]
  unfolding example_accept_run
  by (simp add: fork_ok_def no_race_def example_accept_def reaped_def server_init_def)

text \<open>
  Without that condition it fails: the signal is not blocked while \<open>udpPid\<close> is being set. If the
  listener ends before its pid has been stored, the handler does not recognise it, and the daemon
  goes on telling the port of a listener that no longer exists.
\<close>

theorem accept_loop_race:
  "\<exists>s. s = foldl (server_step (\<lambda>i. i) 1000) (server_init example_pwstate False 0)
      [example_accept [77], AcceptFailed EINTR] \<and> srv_port s = 40000 \<and> srv_stopped s = None \<and>
    srv_pid s \<in> set (srv_gone s)"
  unfolding example_accept_run by (simp add: reaped_def server_init_def)

end
