(* ===== verification/GuestCreds.thy ===== *)
theory GuestCreds
  imports CLib
begin

section \<open>Credentials of the guest agent (run-virt/winres/src/winres.c)\<close>

text \<open>
  The agent inside a Windows guest reads \<open>B:\shares.dat\<close>: the first line names the host, the UDP
  port, two hexadecimal keys and the user, each further line a network drive. It then asks the
  password daemon for the password over UDP. This theory holds the parsing of the file
  (\<open>getToken\<close>, \<open>readShareFile\<close>, \<open>uncReplaceFqdnByIp\<close>, \<open>hex2bin\<close>), the request
  (\<open>queryPasswordDaemon\<close>) and the reception of the reply.

  \<open>getToken\<close> works on a character array with a position, as the source does: it writes NUL
  characters into the array it walks over, and two of the tokens are kept as pointers into it.
  Reading at or behind the end of the array yields NUL in the model; the source's arrays end in
  NUL, and \<open>getToken_run\<close> shows that the position never leaves the array. Name resolution and the
  results of the Winsock calls are arguments.
\<close>

definition GKEYLEN :: nat where
  "GKEYLEN = 16"

definition DRIVEMAX :: nat where
  "DRIVEMAX = 100"

record netdrive =
  nd_path :: "string option"
  nd_pathIp :: "string option"
  nd_letter :: "string option"
  nd_shortcut :: "string option"
  nd_user :: "string option"
  nd_pass :: "string option"
  nd_success :: bool

definition empty_drive :: netdrive where
  "empty_drive = \<lparr>nd_path = None, nd_pathIp = None, nd_letter = None, nd_shortcut = None,
                  nd_user = None, nd_pass = None, nd_success = False\<rparr>"

text \<open>The global variables that hold the credentials, and the statics of \<open>queryPasswordDaemon\<close>.\<close>

record creds =
  shareFileOk :: bool
  shost :: "string option"
  sport :: "string option"
  suser :: "string option"
  spass :: "string option"
  bkey1 :: "byte list option"
  bkey2 :: "byte list option"
  drives :: "netdrive list"
  wsaInit :: int
  sockOpen :: bool

definition creds_init :: creds where
  "creds_init = \<lparr>shareFileOk = False, shost = None, sport = None, suser = None, spass = None,
                 bkey1 = None, bkey2 = None, drives = replicate DRIVEMAX empty_drive,
                 wsaInit = 1337, sockOpen = False\<rparr>"

subsection \<open>Tokens\<close>

definition char_at :: "string \<Rightarrow> nat \<Rightarrow> char" where
  "char_at buf i = (if i < length buf then buf ! i else NUL)"

definition is_delim :: "char \<Rightarrow> bool" where
  "is_delim c \<longleftrightarrow> c = CHR ''\<newline>'' \<or> c = CHR 0x0D \<or> c = CHR 0x09"

function skip_spaces :: "string \<Rightarrow> nat \<Rightarrow> string \<times> nat" where
  "skip_spaces buf p =
     (if char_at buf p = CHR '' '' then skip_spaces (buf[p := NUL]) (Suc p) else (buf, p))"
  by pat_completeness auto
termination
  by (relation "measure (\<lambda>(buf, p). length buf - p)")
     (auto simp: char_at_def NUL_def split: if_splits)

function scan_token :: "string \<Rightarrow> nat \<Rightarrow> string \<times> nat" where
  "scan_token buf p =
     (if char_at buf p = NUL then (buf, p)
      else if is_delim (char_at buf p) then (buf[p := NUL], Suc p)
      else scan_token buf (Suc p))"
  by pat_completeness auto
termination
  by (relation "measure (\<lambda>(buf, p). length buf - p)") (auto simp: char_at_def split: if_splits)

fun trim_token :: "string \<Rightarrow> nat \<Rightarrow> nat \<Rightarrow> string" where
  "trim_token buf dest trim =
     (if dest < trim \<and> char_at buf (trim - 1) = CHR '' ''
      then trim_token (buf[trim - 1 := NUL]) dest (trim - 1) else buf)"

declare skip_spaces.simps [simp del] scan_token.simps [simp del] trim_token.simps [simp del]

text \<open>
  The array and the position after the call, and the position of the token (\<open>None\<close> for the NULL
  pointer). Copying the token (\<open>doDup\<close>) is up to the callers below.
\<close>

definition getToken :: "string \<Rightarrow> nat \<Rightarrow> bool \<Rightarrow> string \<times> nat \<times> nat option" where
  "getToken buf ptr doTrim =
     (if char_at buf ptr = NUL then (buf, ptr, None)
      else let (buf1, dest) = (if doTrim then skip_spaces buf ptr else (buf, ptr));
               (buf2, ptr2) = scan_token buf1 dest;
               buf3 = (if doTrim then trim_token buf2 dest (ptr2 - 1) else buf2)
           in (buf3, ptr2, Some dest))"

definition getToken_dup :: "string \<Rightarrow> nat \<Rightarrow> bool \<Rightarrow> string \<times> nat \<times> string option" where
  "getToken_dup buf ptr doTrim =
     (case getToken buf ptr doTrim of (buf', ptr', dest) \<Rightarrow>
        (buf', ptr', map_option (cstr_at buf') dest))"

subsection \<open>Keys\<close>

definition getbin :: "int \<Rightarrow> int" where
  "getbin x =
     (if 48 \<le> x \<and> x \<le> 57 then x - 48
      else if 65 \<le> x \<and> x \<le> 70 then x - 65 + 10
      else x - 97 + 10)"

text \<open>\<open>char\<close> is signed; the shift and the disjunction are done on \<open>int\<close>.\<close>

definition c_char :: "char \<Rightarrow> int" where
  "c_char c = sint (byte_of_char c)"

fun hex2bin :: "string \<Rightarrow> byte list" where
  "hex2bin (a # b # s) =
     ucast (push_bit 4 (word_of_int (getbin (c_char a)) :: u32) OR word_of_int (getbin (c_char b)))
       # hex2bin s"
| "hex2bin s = []"

definition xorString_wr :: "byte list \<Rightarrow> nat \<Rightarrow> byte list \<Rightarrow> string" where
  "xorString_wr text len key =
     cstr (map (\<lambda>i. char_of_byte (text ! i XOR key ! (i mod GKEYLEN))) [0..<len])"

subsection \<open>The share file\<close>

text \<open>\<open>resolve\<close> stands for \<open>gethostbyname\<close> and \<open>inet_ntoa\<close>: the first IPv4 address, as text.\<close>

definition uncReplaceFqdnByIp :: "(string \<Rightarrow> string option) \<Rightarrow> string option \<Rightarrow> string option" where
  "uncReplaceFqdnByIp resolve path =
     (case path of
        Some (a # b # host) \<Rightarrow>
          if a \<noteq> CHR 0x5C \<or> b \<noteq> CHR 0x5C then None
          else let name = takeWhile (\<lambda>c. c \<noteq> CHR 0x5C) host;
                   rest = dropWhile (\<lambda>c. c \<noteq> CHR 0x5C) host
               in if rest = [] \<or> 200 \<le> length name then None
                  else (case resolve name of
                          None \<Rightarrow> None
                        | Some ip \<Rightarrow> Some ([CHR 0x5C, CHR 0x5C] @ ip @ rest))
      | _ \<Rightarrow> None)"

text \<open>One drive line; \<open>None\<close> is the jump to \<open>drive_fail\<close>.\<close>

definition parse_drive :: "(string \<Rightarrow> string option) \<Rightarrow> string \<Rightarrow> netdrive option" where
  "parse_drive resolve line =
     (let (b1, p1, path) = getToken_dup (line @ [NUL]) 0 True;
          (b2, p2, letter) = getToken_dup b1 p1 True;
          (b3, p3, shortcut) = getToken_dup b2 p2 False;
          (b4, p4, user) = getToken_dup b3 p3 True;
          (b5, p5, pass) = getToken_dup b4 p4 False
      in if path = None \<or> path = Some [] then None
         else Some \<lparr>nd_path = path, nd_pathIp = uncReplaceFqdnByIp resolve path, nd_letter = letter,
                    nd_shortcut = shortcut, nd_user = user, nd_pass = pass, nd_success = False\<rparr>)"

text \<open>
  The memory that starts at \<open>drives\<close>: a write behind the last cell known so far makes the list
  longer, so that a write outside of the array shows in its length.
\<close>

definition store_drive :: "netdrive list \<Rightarrow> nat \<Rightarrow> netdrive \<Rightarrow> netdrive list" where
  "store_drive ds i d =
     (if i < length ds then ds[i := d] else ds @ replicate (i - length ds) empty_drive @ [d])"

function read_drives ::
  "(string \<Rightarrow> string option) \<Rightarrow> string \<Rightarrow> nat \<Rightarrow> netdrive list \<Rightarrow> netdrive list" where
  "read_drives resolve h idx ds =
     (case fgets 500 h of
        None \<Rightarrow> ds
      | Some (line, h') \<Rightarrow>
          if idx < DRIVEMAX then
            (case parse_drive resolve line of
               None \<Rightarrow> read_drives resolve h' idx (store_drive ds idx empty_drive)
             | Some d \<Rightarrow> read_drives resolve h' (Suc idx) (store_drive ds idx d))
          else ds)"
  by pat_completeness auto
termination
  by (relation "measure (\<lambda>(resolve, h, idx, ds). length h)") (auto dest: fgets_progress)

declare read_drives.simps [simp del]

text \<open>
  The first line: \<open>shost\<close>, \<open>sport\<close> and \<open>suser\<close> are copied; \<open>skey1\<close> and \<open>skey2\<close> are pointers into
  the array, read after the last token has been cut off.
\<close>

definition parse_creds ::
  "string \<Rightarrow> string option \<times> string option \<times> string option \<times> string option \<times> string option" where
  "parse_creds line =
     (let (b1, p1, host) = getToken_dup (line @ [NUL]) 0 True;
          (b2, p2, port) = getToken_dup b1 p1 True;
          (b3, p3, k1) = getToken b2 p2 True;
          (b4, p4, k2) = getToken b3 p3 True;
          (b5, p5, user) = getToken_dup b4 p4 True
      in (host, port, map_option (cstr_at b5) k1, map_option (cstr_at b5) k2, user))"

definition readShareFile :: "(string \<Rightarrow> string option) \<Rightarrow> string option \<Rightarrow> creds \<Rightarrow> creds" where
  "readShareFile resolve file g =
     (if shareFileOk g then g
      else let g0 = g\<lparr>drives := replicate DRIVEMAX empty_drive\<rparr>
      in (case file of
        None \<Rightarrow> g0
      | Some content \<Rightarrow>
          let (host, port, skey1, skey2, user, h) =
                (case fgets 300 content of
                   None \<Rightarrow> (shost g0, sport g0, None, None, suser g0, content)
                 | Some (line, h) \<Rightarrow>
                     (case parse_creds line of (a, b, c, d, e) \<Rightarrow> (a, b, c, d, e, h)));
              g1 = g0\<lparr>shost := host, sport := port, suser := user,
                      drives := read_drives resolve h 0 (drives g0)\<rparr>
          in if host = None \<or> port = None \<or> skey1 = None \<or> skey2 = None \<or> user = None then g1
             else if take 1 (the host) = ''-'' \<and> take 1 (the port) = ''-''
             then g1\<lparr>shareFileOk := True, spass := Some []\<rparr>
             else if length (the skey1) \<noteq> GKEYLEN * 2 \<or> length (the skey2) \<noteq> GKEYLEN * 2 then g1
             else if atoi_win (the port) < 1000 \<or> 65535 < atoi_win (the port) then g1
             else g1\<lparr>bkey1 := Some (hex2bin (the skey1)), bkey2 := Some (hex2bin (the skey2)),
                     shareFileOk := True\<rparr>))"

subsection \<open>Asking for the password\<close>

record netcalls =
  nc_window :: bool
  nc_wsa :: int
  nc_socket :: bool
  nc_sent :: int

text \<open>
  The return value, the new state, and the datagram handed to \<open>sendto\<close> with its destination, if
  the call is reached.
\<close>

definition queryPasswordDaemon ::
  "netcalls \<Rightarrow> creds \<Rightarrow> int \<times> creds \<times> (string \<times> u16 \<times> byte list) option" where
  "queryPasswordDaemon nc g =
     (if \<not> shareFileOk g \<or> spass g \<noteq> None then (0, g, None)
      else if \<not> nc_window nc then (6, g, None)
      else let g1 = (if wsaInit g = 1337 then g\<lparr>wsaInit := nc_wsa nc\<rparr> else g)
      in if wsaInit g1 \<noteq> 0 then (2, g1, None)
         else if \<not> sockOpen g1 \<and> \<not> nc_socket nc then (3, g1, None)
         else let g2 = g1\<lparr>sockOpen := True\<rparr>;
                  dgram = (the (shost g2), word_of_int (atoi_win (the (sport g2))),
                           take GKEYLEN (the (bkey1 g2)))
              in if nc_sent nc \<noteq> int GKEYLEN then (4, g2, Some dgram)
                 else if spass g2 = None then (- 1, g2, Some dgram) else (0, g2, Some dgram))"

text \<open>
  The part of \<open>udpReceived\<close> up to the call of \<open>mountNetworkShares\<close>: \<open>ret\<close> is what \<open>recv\<close> delivers
  into the 200-byte buffer, \<open>None\<close> for an error. The result says whether a password was taken.
\<close>

definition udpReceived_pass :: "byte list option \<Rightarrow> creds \<Rightarrow> creds \<times> bool" where
  "udpReceived_pass ret g =
     (case ret of
        None \<Rightarrow> (g, False)
      | Some buffer \<Rightarrow>
          if length buffer < 2 then (g, False)
          else let len = (push_bit 8 (ucast (buffer ! 0)) OR ucast (buffer ! 1) :: u16)
               in if length buffer - 2 \<noteq> unat len then (g, False)
                  else (g\<lparr>spass := Some (xorString_wr (drop 2 buffer) (unat len) (the (bkey2 g)))\<rparr>, True))"

subsection \<open>What a token is\<close>

text \<open>The text functions the pointer loops compute.\<close>

definition rstrip :: "string \<Rightarrow> string" where
  "rstrip s = rev (dropWhile (\<lambda>c. c = CHR '' '') (rev s))"

text \<open>
  The backward loop of \<open>getToken\<close> starts one position before the end when no delimiter followed
  the token: it then strips the spaces before the last character, and the last character with
  them.
\<close>

definition rstrip_unterminated :: "string \<Rightarrow> string" where
  "rstrip_unterminated s = (if rstrip (butlast s) = butlast s then s else rstrip (butlast s))"

definition token_text :: "bool \<Rightarrow> string \<Rightarrow> string" where
  "token_text doTrim s =
     (let s1 = (if doTrim then dropWhile (\<lambda>c. c = CHR '' '') s else s);
          body = takeWhile (\<lambda>c. \<not> is_delim c) s1
      in if \<not> doTrim then body
         else if dropWhile (\<lambda>c. \<not> is_delim c) s1 = [] then rstrip_unterminated body
         else rstrip body)"

definition token_rest :: "string \<Rightarrow> string" where
  "token_rest s = drop 1 (dropWhile (\<lambda>c. \<not> is_delim c) s)"

lemma is_delim_not_space: "is_delim c \<Longrightarrow> c \<noteq> CHR '' ''"
  by (auto simp: is_delim_def)

lemma not_is_delim_space [simp]: "\<not> is_delim (CHR '' '')"
  by (simp add: is_delim_def)

lemma char_at_append_length [simp]: "char_at (xs @ c # ys) (length xs) = c"
  by (simp add: char_at_def)

lemma char_at_end [simp]: "char_at xs (length xs) = NUL"
  by (simp add: char_at_def)

lemma skip_spaces_run:
  assumes "t = [] \<or> hd t \<noteq> CHR '' ''"
  shows "skip_spaces (pre @ replicate k (CHR '' '') @ t) (length pre) =
           (pre @ replicate k NUL @ t, length pre + k)"
proof (induction k arbitrary: pre)
  case 0
  from assms have "char_at (pre @ t) (length pre) \<noteq> CHR '' ''"
    by (cases t) (auto simp: char_at_def NUL_def)
  then show ?case by (simp add: skip_spaces.simps)
next
  case (Suc k)
  from Suc.IH [of "pre @ [NUL]"] show ?case
    by (simp add: skip_spaces.simps [of "pre @ CHR '' '' # replicate k (CHR '' '') @ t"])
qed

lemma scan_token_run:
  assumes "\<And>c. c \<in> set body \<Longrightarrow> c \<noteq> NUL \<and> \<not> is_delim c"
  shows "scan_token (pre @ body @ NUL # r) (length pre) = (pre @ body @ NUL # r, length pre + length body)"
    and "is_delim d \<Longrightarrow> scan_token (pre @ body @ d # r) (length pre) =
           (pre @ body @ NUL # r, Suc (length pre + length body))"
  using assms
proof (induction body arbitrary: pre)
  case Nil
  {
    case 1
    then show ?case by (simp add: scan_token.simps)
  next
    case 2
    then show ?case by (auto simp: scan_token.simps is_delim_def NUL_def)
  }
next
  case (Cons c body)
  {
    case 1
    then show ?case using Cons.IH(1) [of "pre @ [c]"]
      by (simp add: scan_token.simps [of "pre @ c # body @ NUL # r"])
  next
    case 2
    then show ?case using Cons.IH(2) [of "pre @ [c]"]
      by (simp add: scan_token.simps [of "pre @ c # body @ d # r"])
  }
qed

lemma trim_token_none: "trim \<le> dest \<Longrightarrow> trim_token buf dest trim = buf"
  by (simp add: trim_token.simps)

lemma trim_token_run:
  "trim_token (pre @ body @ r) (length pre) (length pre + length body) =
     pre @ rstrip body @ replicate (length body - length (rstrip body)) NUL @ r"
proof (induction body arbitrary: r rule: rev_induct)
  case Nil
  then show ?case by (simp add: trim_token.simps rstrip_def)
next
  case (snoc c body)
  show ?case
  proof (cases "c = CHR '' ''")
    case True
    have len: "length (rstrip body) \<le> length body"
      using length_dropWhile_le [of _ "rev body"] by (simp add: rstrip_def)
    have "char_at (pre @ body @ c # r) (length pre + length body) = c"
      by (simp add: char_at_def nth_append)
    moreover have "(pre @ body @ c # r)[length pre + length body := NUL] = pre @ body @ NUL # r"
      by (simp add: list_update_append)
    ultimately show ?thesis
      using True snoc.IH [of "NUL # r"] len
      by (simp add: trim_token.simps [of "pre @ body @ CHR '' '' # r"] rstrip_def
          replicate_app_Cons_same Suc_diff_le)
  next
    case False
    have "char_at (pre @ body @ c # r) (length pre + length body) = c"
      by (simp add: char_at_def nth_append)
    with False show ?thesis
      by (simp add: trim_token.simps [of "pre @ body @ c # r"] rstrip_def)
  qed
qed

lemma rstrip_append_spaces: "\<exists>k. s = rstrip s @ replicate k (CHR '' '')"
proof -
  have "takeWhile (\<lambda>c. c = CHR '' '') (rev s)
      = replicate (length (takeWhile (\<lambda>c. c = CHR '' '') (rev s))) (CHR '' '')"
    by (rule replicate_length_same [symmetric]) (auto dest: set_takeWhileD)
  then have "rev s = replicate (length (takeWhile (\<lambda>c. c = CHR '' '') (rev s))) (CHR '' '')
      @ dropWhile (\<lambda>c. c = CHR '' '') (rev s)"
    by (metis takeWhile_dropWhile_id)
  then show ?thesis
    unfolding rstrip_def by (metis rev_append rev_replicate rev_rev_ident)
qed

lemma set_rstrip: "set (rstrip s) \<subseteq> set s"
  using set_dropWhileD by (fastforce simp: rstrip_def)

lemma rstrip_no_trailing: "s = [] \<or> last s \<noteq> CHR '' '' \<Longrightarrow> rstrip s = s"
  by (cases s rule: rev_cases) (auto simp: rstrip_def)

text \<open>The four ways a call ends: with or without trimming, at a delimiter or at the end.\<close>

lemma getToken_delim:
  assumes "\<And>c. c \<in> set body \<Longrightarrow> c \<noteq> NUL \<and> \<not> is_delim c" and "is_delim d"
  shows "getToken (pre @ body @ d # r) (length pre) False =
           (pre @ body @ NUL # r, Suc (length pre + length body), Some (length pre))"
    and "body = [] \<or> hd body \<noteq> CHR '' '' \<Longrightarrow>
         getToken (pre @ replicate k (CHR '' '') @ body @ d # r) (length pre) True =
           (pre @ replicate k NUL @ rstrip body @ replicate (length body - length (rstrip body)) NUL
              @ NUL # r, Suc (length pre + k + length body), Some (length pre + k))"
proof -
  have first: "char_at (pre @ x @ y # r) (length pre) \<noteq> NUL"
    if "\<And>c. c \<in> set (x @ [y]) \<Longrightarrow> c \<noteq> NUL" for x y
    using that by (cases x) auto
  have dN: "d \<noteq> NUL" using assms(2) by (auto simp: is_delim_def NUL_def)
  show "getToken (pre @ body @ d # r) (length pre) False =
      (pre @ body @ NUL # r, Suc (length pre + length body), Some (length pre))"
    using first [of body d] dN assms scan_token_run(2) [of body d pre r]
    by (auto simp: getToken_def)
  assume "body = [] \<or> hd body \<noteq> CHR '' ''"
  then have hd: "body @ d # r = [] \<or> hd (body @ d # r) \<noteq> CHR '' ''"
    using is_delim_not_space [OF assms(2)] by (cases body) auto
  show "getToken (pre @ replicate k (CHR '' '') @ body @ d # r) (length pre) True =
           (pre @ replicate k NUL @ rstrip body @ replicate (length body - length (rstrip body)) NUL
              @ NUL # r, Suc (length pre + k + length body), Some (length pre + k))"
    using first [of "replicate k (CHR '' '') @ body" d] dN assms
      skip_spaces_run [OF hd, of pre k] scan_token_run(2) [of body d "pre @ replicate k NUL" r]
      trim_token_run [of "pre @ replicate k NUL" body "NUL # r"]
    by (auto simp: getToken_def NUL_def)
qed

lemma char_at_first_not_NUL:
  "x \<noteq> [] \<Longrightarrow> NUL \<notin> set x \<Longrightarrow> char_at (pre @ x @ y) (length pre) \<noteq> NUL"
  by (cases x) auto

lemma getToken_end_plain:
  assumes "\<And>c. c \<in> set body \<Longrightarrow> c \<noteq> NUL \<and> \<not> is_delim c" and "body \<noteq> []"
  shows "getToken (pre @ body @ NUL # r) (length pre) False =
           (pre @ body @ NUL # r, length pre + length body, Some (length pre))"
proof -
  from assms have "char_at (pre @ body @ NUL # r) (length pre) \<noteq> NUL"
    by (intro char_at_first_not_NUL) auto
  then show ?thesis
    using scan_token_run(1) [of body pre r, OF assms(1)] by (simp add: getToken_def)
qed

lemma getToken_end_trim:
  assumes "\<And>c. c \<in> set body \<Longrightarrow> c \<noteq> NUL \<and> \<not> is_delim c" and "body \<noteq> []"
    and "hd body \<noteq> CHR '' ''"
  shows "getToken (pre @ replicate k (CHR '' '') @ body @ NUL # r) (length pre) True =
           (pre @ replicate k NUL @ rstrip (butlast body)
              @ replicate (length (butlast body) - length (rstrip (butlast body))) NUL
              @ last body # NUL # r, length pre + k + length body, Some (length pre + k))"
proof -
  obtain bl c where body: "body = bl @ [c]" using assms(2) by (cases body rule: rev_cases) auto
  have "body @ NUL # r = [] \<or> hd (body @ NUL # r) \<noteq> CHR '' ''"
    using assms(2,3) by simp
  note skip = skip_spaces_run [OF this, of pre k]
  have scan: "scan_token (pre @ replicate k NUL @ body @ NUL # r) (length pre + k) =
      (pre @ replicate k NUL @ body @ NUL # r, length pre + k + length body)"
    using scan_token_run(1) [of body "pre @ replicate k NUL" r, OF assms(1)] by simp
  have trim: "trim_token (pre @ replicate k NUL @ bl @ c # NUL # r) (length pre + k)
        (length pre + k + length bl)
      = pre @ replicate k NUL @ rstrip bl @ replicate (length bl - length (rstrip bl)) NUL
        @ c # NUL # r"
    using trim_token_run [of "pre @ replicate k NUL" bl "c # NUL # r"] by simp
  have "NUL \<notin> set (replicate k (CHR '' '') @ body)"
    using assms(1) by (auto simp: NUL_def)
  then have "char_at (pre @ (replicate k (CHR '' '') @ body) @ NUL # r) (length pre) \<noteq> NUL"
    using assms(2) by (intro char_at_first_not_NUL) auto
  then show ?thesis using skip scan trim by (simp add: getToken_def body)
qed

lemma getToken_end_blank:
  assumes "0 < k"
  shows "getToken (pre @ replicate k (CHR '' '') @ NUL # r) (length pre) True =
           (pre @ replicate k NUL @ NUL # r, length pre + k, Some (length pre + k))"
proof -
  from assms have "char_at (pre @ replicate k (CHR '' '') @ NUL # r) (length pre) \<noteq> NUL"
    by (intro char_at_first_not_NUL) (auto simp: NUL_def)
  moreover have "skip_spaces (pre @ replicate k (CHR '' '') @ NUL # r) (length pre) =
      (pre @ replicate k NUL @ NUL # r, length pre + k)"
    by (rule skip_spaces_run) (simp add: NUL_def)
  moreover have "scan_token (pre @ replicate k NUL @ NUL # r) (length pre + k) =
      (pre @ replicate k NUL @ NUL # r, length pre + k)"
    using scan_token_run(1) [of "[]" "pre @ replicate k NUL" r] by simp
  ultimately show ?thesis by (simp add: getToken_def trim_token_none)
qed

lemma spaces_split:
  obtains k t where "s = replicate k (CHR '' '') @ t" and "dropWhile (\<lambda>c. c = CHR '' '') s = t"
    and "t = [] \<or> hd t \<noteq> CHR '' ''"
proof -
  let ?sp = "takeWhile (\<lambda>c. c = CHR '' '') s"
  have "?sp = replicate (length ?sp) (CHR '' '')"
    by (rule replicate_length_same [symmetric]) (auto dest: set_takeWhileD)
  moreover have "s = ?sp @ dropWhile (\<lambda>c. c = CHR '' '') s" by simp
  ultimately have "s = replicate (length ?sp) (CHR '' '') @ dropWhile (\<lambda>c. c = CHR '' '') s"
    by (rule subst)
  then show ?thesis
    using that hd_dropWhile [of "\<lambda>c. c = CHR '' ''" s] by blast
qed

lemma delim_split:
  obtains (terminated) body d r where "s = body @ d # r" and "is_delim d" and "\<forall>c \<in> set body. \<not> is_delim c"
  | (unterminated) "\<forall>c \<in> set s. \<not> is_delim c"
proof (cases "\<exists>c \<in> set s. is_delim c")
  case True
  then show ?thesis using split_list_first_prop [of s is_delim] terminated by metis
next
  case False
  then show ?thesis using unterminated by blast
qed

lemma token_rest_spaces: "token_rest (replicate k (CHR '' '') @ t) = token_rest t"
  by (induction k) (auto simp: token_rest_def is_delim_def)

lemma token_rest_delim:
  "\<forall>c \<in> set body. \<not> is_delim c \<Longrightarrow> is_delim d \<Longrightarrow> token_rest (body @ d # r) = r"
  by (simp add: token_rest_def dropWhile_append_stop)

lemma token_rest_end: "\<forall>c \<in> set s. \<not> is_delim c \<Longrightarrow> token_rest s = []"
proof -
  assume "\<forall>c \<in> set s. \<not> is_delim c"
  then have "dropWhile (\<lambda>c. \<not> is_delim c) s = []" by simp
  then show ?thesis unfolding token_rest_def by (simp only: drop_Nil)
qed

lemma cstr_NULs: "NUL \<notin> set t \<Longrightarrow> cstr (t @ replicate k NUL @ NUL # r) = t"
  by (cases k) simp_all

lemma cstr_rstrip_end:
  assumes "NUL \<notin> set body" and "body \<noteq> []"
  shows "cstr (rstrip (butlast body)
           @ replicate (length (butlast body) - length (rstrip (butlast body))) NUL
           @ last body # NUL # r) = rstrip_unterminated body"
proof (cases "rstrip (butlast body) = butlast body")
  case True
  have "butlast body @ last body # NUL # r = (butlast body @ [last body]) @ NUL # r" by simp
  also have "\<dots> = body @ NUL # r" using assms(2) by simp
  finally have "cstr (butlast body @ last body # NUL # r) = cstr (body @ NUL # r)"
    by (rule arg_cong)
  with True assms(1) show ?thesis by (simp add: rstrip_unterminated_def)
next
  case False
  obtain j where j: "butlast body = rstrip (butlast body) @ replicate j (CHR '' '')"
    using rstrip_append_spaces by blast
  with False have "0 < j" by (cases j) auto
  moreover from j have "length (butlast body) = length (rstrip (butlast body)) + j"
    by (metis length_append length_replicate)
  ultimately have "length (rstrip (butlast body)) < length (butlast body)" by simp
  then obtain m where "length (butlast body) - length (rstrip (butlast body)) = Suc m"
    by (metis zero_less_diff gr0_implies_Suc)
  moreover have "NUL \<notin> set (rstrip (butlast body))"
    using assms(1) set_rstrip in_set_butlastD by fastforce
  ultimately show ?thesis using False by (simp add: rstrip_unterminated_def)
qed

text \<open>
  What one call on the NUL-terminated array \<open>pre @ s @ NUL # post\<close> at position \<open>length pre\<close> leaves
  behind: the text in front of the position is untouched, the token's text is \<open>token_text\<close>, and
  from the new position, which is still inside the array, the rest of the line follows up to the
  old terminator. After a delimiter, the token's own terminator lies before the new position.
\<close>

definition token_result ::
  "string \<Rightarrow> string \<Rightarrow> string \<Rightarrow> bool \<Rightarrow> string \<times> nat \<times> nat option \<Rightarrow> bool" where
  "token_result pre s post doTrim res \<longleftrightarrow>
     (\<exists>mid dest. res = (pre @ mid @ token_rest s @ NUL # post, length pre + length mid, Some dest) \<and>
        length mid + length (token_rest s) = length s \<and>
        length pre \<le> dest \<and> dest \<le> length pre + length mid \<and>
        cstr_at (pre @ mid @ token_rest s @ NUL # post) dest = token_text doTrim s \<and>
        ((\<exists>c \<in> set s. is_delim c) \<longrightarrow>
           mid \<noteq> [] \<and> last mid = NUL \<and> dest < length pre + length mid))"

lemma dropWhile_spaces:
  "t = [] \<or> hd t \<noteq> CHR '' '' \<Longrightarrow> dropWhile (\<lambda>c. c = CHR '' '') (replicate k (CHR '' '') @ t) = t"
  by (induction k) (cases t; auto)+

lemma getToken_run_plain:
  assumes "NUL \<notin> set s" and "s \<noteq> []"
  shows "token_result pre s post False (getToken (pre @ s @ NUL # post) (length pre) False)"
proof (cases s rule: delim_split)
  case (terminated body d r)
  with assms have "getToken (pre @ s @ NUL # post) (length pre) False =
      (pre @ (body @ [NUL]) @ r @ NUL # post, length pre + length (body @ [NUL]), Some (length pre))"
    using getToken_delim(1) [of body d pre "r @ NUL # post"] by auto
  moreover have "token_text False s = body"
    using terminated by (simp add: token_text_def takeWhile_append_stop)
  ultimately show ?thesis
    using terminated assms(1) token_rest_delim [of body d r] unfolding token_result_def
    by (intro exI [of _ "body @ [NUL]"] exI [of _ "length pre"]) (auto simp: cstr_at_def)
next
  case unterminated
  have chars: "\<And>c. c \<in> set s \<Longrightarrow> c \<noteq> NUL \<and> \<not> is_delim c"
    using assms(1) unterminated by auto
  show ?thesis
    using getToken_end_plain [OF chars assms(2), of pre post] token_rest_end [OF unterminated]
      assms(1) unterminated unfolding token_result_def
    by (intro exI [of _ s] exI [of _ "length pre"])
       (auto simp: cstr_at_def token_text_def takeWhile_eq_all_conv [THEN iffD2])
qed

lemma length_rstrip_le: "length (rstrip s) \<le> length s"
  using length_dropWhile_le [of _ "rev s"] by (simp add: rstrip_def)

lemma getToken_run_trim_delim:
  assumes "NUL \<notin> set s" and "s = replicate k (CHR '' '') @ body @ d # r" and "is_delim d"
    and "\<forall>c \<in> set body. \<not> is_delim c" and "body = [] \<or> hd body \<noteq> CHR '' ''"
  shows "token_result pre s post True (getToken (pre @ s @ NUL # post) (length pre) True)"
proof -
  let ?mid = "replicate k NUL @ rstrip body @ replicate (length body - length (rstrip body)) NUL @ [NUL]"
  have chars: "\<And>c. c \<in> set body \<Longrightarrow> c \<noteq> NUL \<and> \<not> is_delim c"
    using assms(1,2,4) by auto
  have "getToken (pre @ s @ NUL # post) (length pre) True =
      (pre @ ?mid @ r @ NUL # post, length pre + length ?mid, Some (length pre + k))"
    using getToken_delim(2) [OF chars assms(3,5), of pre k "r @ NUL # post"] length_rstrip_le [of body]
    by (simp add: assms(2))
  moreover have "dropWhile (\<lambda>c. c = CHR '' '') s = body @ d # r"
    unfolding assms(2)
    by (rule dropWhile_spaces) (use assms(5) is_delim_not_space [OF assms(3)] in \<open>cases body; auto\<close>)
  then have "token_text True s = rstrip body"
    using assms(3,4) by (simp add: token_text_def takeWhile_append_stop dropWhile_append_stop)
  moreover have "NUL \<notin> set (rstrip body)"
    using assms(1,2) set_rstrip by fastforce
  moreover have "token_rest s = r"
    using token_rest_delim [OF assms(4,3)] by (simp add: assms(2) token_rest_spaces)
  ultimately show ?thesis
    using length_rstrip_le [of body] unfolding token_result_def
    by (intro exI [of _ ?mid] exI [of _ "length pre + k"])
       (simp add: assms(2) cstr_at_def cstr_NULs)
qed

lemma getToken_run_trim_end:
  assumes "NUL \<notin> set s" and "s = replicate k (CHR '' '') @ t" and "t \<noteq> []" and "hd t \<noteq> CHR '' ''"
    and "\<forall>c \<in> set t. \<not> is_delim c"
  shows "token_result pre s post True (getToken (pre @ s @ NUL # post) (length pre) True)"
proof -
  let ?mid = "replicate k NUL @ rstrip (butlast t)
      @ replicate (length (butlast t) - length (rstrip (butlast t))) NUL @ [last t]"
  have len: "Suc (length (rstrip (butlast t)) + (length t - Suc (length (rstrip (butlast t)))))
      = length t"
    using length_rstrip_le [of "butlast t"] assms(3) by (cases t) (simp_all del: butlast.simps)
  have chars: "\<And>c. c \<in> set t \<Longrightarrow> c \<noteq> NUL \<and> \<not> is_delim c"
    using assms(1,2,5) by auto
  have "getToken (pre @ s @ NUL # post) (length pre) True =
      (pre @ ?mid @ NUL # post, length pre + length ?mid, Some (length pre + k))"
    using getToken_end_trim [OF chars assms(3,4), of pre k post] len by (simp add: assms(2))
  moreover have "dropWhile (\<lambda>c. c = CHR '' '') s = t"
    unfolding assms(2) by (rule dropWhile_spaces) (use assms(4) in simp)
  then have "token_text True s = rstrip_unterminated t"
    using assms(5) by (simp add: token_text_def takeWhile_eq_all_conv [THEN iffD2])
  moreover have "token_rest s = []"
    using token_rest_end [OF assms(5)] by (simp add: assms(2) token_rest_spaces)
  moreover have "NUL \<notin> set t" using assms(1,2) by auto
  ultimately show ?thesis
    using len cstr_rstrip_end [of t post] assms(3,5) unfolding token_result_def
    by (intro exI [of _ ?mid] exI [of _ "length pre + k"])
       (simp add: assms(2) cstr_at_def bex_Un set_replicate_conv_if)
qed

lemma getToken_run:
  assumes "NUL \<notin> set s" and "s \<noteq> []"
  shows "token_result pre s post doTrim (getToken (pre @ s @ NUL # post) (length pre) doTrim)"
proof (cases doTrim)
  case False
  with getToken_run_plain [OF assms] show ?thesis by simp
next
  case True
  obtain k t where s: "s = replicate k (CHR '' '') @ t" and hd: "t = [] \<or> hd t \<noteq> CHR '' ''"
    by (rule spaces_split)
  show ?thesis
  proof (cases t rule: delim_split)
    case (terminated body d r)
    with hd have "body = [] \<or> hd body \<noteq> CHR '' ''" by (cases body) auto
    with getToken_run_trim_delim [OF assms(1) _ terminated(2,3), of k r pre post] True s terminated(1)
    show ?thesis by simp
  next
    case unterminated
    show ?thesis
    proof (cases "t = []")
      case False
      with hd have "hd t \<noteq> CHR '' ''" by simp
      from getToken_run_trim_end [OF assms(1) s False this unterminated] True show ?thesis by simp
    next
      case blank: True
      with assms(2) s have "0 < k" by (cases k) auto
      moreover have "token_rest s = []"
        using blank token_rest_spaces [of k "[]"] by (simp add: s token_rest_def)
      ultimately show ?thesis
        using True s blank getToken_end_blank [of k pre post] unfolding token_result_def
        by (intro exI [of _ "replicate k NUL"] exI [of _ "length pre + k"])
           (simp add: cstr_at_def cstr_def token_text_def rstrip_unterminated_def rstrip_def)
    qed
  qed
qed

text \<open>
  C5: on a NUL-terminated array the pointer loops of \<open>getToken\<close> compute \<open>token_text\<close>: the token
  is the line up to the next tab, carriage return or newline. If trimming is asked for, leading
  spaces are dropped, and so are trailing spaces when one of these delimiters ends the token. When the
  line ends without a delimiter, the code starts trimming one character too early: it keeps the last
  character, be it a space, unless a space stands before it, and then drops that character and the
  spaces before it. The position moves behind the delimiter and stays inside the array, the rest of the
  line and everything in front of the old position are unchanged.
\<close>

theorem getToken_refines:
  assumes "NUL \<notin> set s" and "s \<noteq> []"
    and "getToken (pre @ s @ NUL # post) (length pre) doTrim = (buf', ptr', dest)"
  shows "\<exists>d. dest = Some d \<and> cstr_at buf' d = token_text doTrim s \<and> length pre \<le> d \<and>
           cstr_at buf' ptr' = token_rest s \<and> drop (length pre + length s) buf' = NUL # post \<and>
           length buf' = length (pre @ s @ NUL # post) \<and> ptr' \<le> length pre + length s \<and>
           take (length pre) buf' = pre"
proof -
  from getToken_run [OF assms(1,2), of pre post doTrim] assms(3)
  obtain mid d where res: "buf' = pre @ mid @ token_rest s @ NUL # post"
      "ptr' = length pre + length mid" "dest = Some d"
    and len: "length mid + length (token_rest s) = length s"
    and d: "length pre \<le> d" "cstr_at buf' d = token_text doTrim s"
    unfolding token_result_def by auto
  have "set (token_rest s) \<subseteq> set s"
    unfolding token_rest_def by (meson set_drop_subset set_dropWhileD subset_iff)
  with assms(1) have "NUL \<notin> set (token_rest s)" by blast
  moreover have "length pre + length s = length (pre @ mid @ token_rest s)" using len by simp
  then have "drop (length pre + length s) buf' = NUL # post"
    unfolding res(1) by (metis append.assoc append_eq_conv_conj)
  ultimately show ?thesis using res len d by (simp add: cstr_at_def)
qed

theorem getToken_refines_witness:
  "\<exists>d. cstr_at (fst (getToken ('' a b '' @ CHR 0x09 # ''c'' @ [NUL]) 0 True)) d = ''a b''"
proof -
  obtain buf' ptr' dest where
    "getToken ('' a b '' @ CHR 0x09 # ''c'' @ [NUL]) 0 True = (buf', ptr', dest)"
    by (metis prod_cases3)
  moreover have "token_text True ('' a b '' @ CHR 0x09 # ''c'') = ''a b''"
    by (simp add: token_text_def is_delim_def rstrip_def)
  ultimately show ?thesis
    using getToken_refines [of "'' a b '' @ CHR 0x09 # ''c''" "[]" "[]" True buf' ptr' dest]
    by (simp add: NUL_def) blast
qed

text \<open>
  The last token of a line that does not end in a newline (the end of the file, or a line
  longer than the buffer) loses its last word when that is a single character: the text
  \<open>w\<close>, space, \<open>c\<close> yields \<open>w\<close>.
\<close>

theorem getToken_unterminated_drops_last:
  assumes "w \<noteq> []" and "\<forall>x \<in> set (c # w). x \<noteq> NUL \<and> \<not> is_delim x \<and> x \<noteq> CHR '' ''"
  shows "snd (snd (getToken_dup (w @ [CHR '' '', c, NUL]) 0 True)) = Some w"
proof -
  let ?s = "w @ [CHR '' '', c]"
  have "NUL \<notin> set ?s" using assms(2) by (auto simp: NUL_def)
  from getToken_run [OF this, of "[]" "[]" True]
  obtain buf ptr d where "getToken (?s @ [NUL]) 0 True = (buf, ptr, Some d)"
    and "cstr_at buf d = token_text True ?s"
    unfolding token_result_def by auto
  moreover have "token_text True ?s = w"
  proof -
    have "dropWhile (\<lambda>c. c = CHR '' '') ?s = ?s" using assms by (cases w) auto
    moreover have "takeWhile (\<lambda>c. \<not> is_delim c) ?s = ?s" "dropWhile (\<lambda>c. \<not> is_delim c) ?s = []"
      using assms(2) by (auto simp: is_delim_def)
    moreover have "rstrip (w @ [CHR '' '']) = w"
      using assms by (cases w rule: rev_cases) (auto simp: rstrip_def)
    moreover have "butlast ?s = w @ [CHR '' '']" by (simp add: butlast_append)
    ultimately show ?thesis by (simp add: token_text_def rstrip_unterminated_def)
  qed
  ultimately show ?thesis by (simp add: getToken_dup_def)
qed

theorem getToken_unterminated_drops_last_witness:
  "snd (snd (getToken_dup (''Home'' @ [CHR '' '', CHR ''X'', NUL]) 0 True)) = Some ''Home''"
  by (rule getToken_unterminated_drops_last) (auto simp: NUL_def is_delim_def)

subsection \<open>The first line of the share file\<close>

text \<open>A field as the host writes it: not empty, no delimiter, no NUL, no outer space.\<close>

definition clean_field :: "string \<Rightarrow> bool" where
  "clean_field t \<longleftrightarrow>
     t \<noteq> [] \<and> NUL \<notin> set t \<and> list_all (\<lambda>c. \<not> is_delim c) t \<and> hd t \<noteq> CHR '' '' \<and> last t \<noteq> CHR '' ''"

lemma clean_field_text:
  assumes "clean_field t" and "is_delim d"
  shows "token_text True (t @ d # r) = t" and "token_rest (t @ d # r) = r"
proof -
  have t: "\<forall>c \<in> set t. \<not> is_delim c" using assms(1) by (simp add: clean_field_def list_all_iff)
  have "dropWhile (\<lambda>c. c = CHR '' '') (t @ d # r) = t @ d # r"
    using assms(1) by (cases t) (auto simp: clean_field_def)
  with t assms show "token_text True (t @ d # r) = t"
    by (simp add: token_text_def takeWhile_append_stop dropWhile_append_stop rstrip_no_trailing
        clean_field_def)
  show "token_rest (t @ d # r) = r" using t assms(2) by (rule token_rest_delim)
qed

text \<open>
  One clean field in front of the rest of the line: the array is cut behind the field, and the
  token can be read there whatever is written behind the new position.
\<close>

lemma getToken_field:
  assumes "clean_field t" and "is_delim d" and "NUL \<notin> set r"
  shows "\<exists>pre' dest. getToken (pre @ (t @ d # r) @ NUL # post) (length pre) True
           = (pre' @ r @ NUL # post, length pre', Some dest) \<and>
         (\<forall>y. cstr_at (pre' @ y) dest = t) \<and> prefix pre pre'"
proof -
  let ?s = "t @ d # r"
  have nn: "NUL \<notin> set ?s" "?s \<noteq> []"
    using assms by (auto simp: clean_field_def is_delim_def NUL_def)
  from getToken_run [OF nn, of pre post True] assms(2) clean_field_text [OF assms(1,2), of r]
  obtain mid dest where res: "getToken (pre @ ?s @ NUL # post) (length pre) True =
        (pre @ mid @ r @ NUL # post, length pre + length mid, Some dest)"
    and dest: "length pre \<le> dest" "dest < length pre + length mid"
    and tok: "cstr_at (pre @ mid @ r @ NUL # post) dest = t"
    and mid: "mid \<noteq> []" "last mid = NUL"
    unfolding token_result_def by auto
  let ?m = "drop (dest - length pre) mid"
  have "?m \<noteq> []" "last ?m = NUL" using dest mid by auto
  then have "NUL \<in> set ?m" by (metis last_in_set)
  then have stop: "cstr (?m @ y) = cstr ?m" for y
    by (auto simp: cstr_def intro!: takeWhile_append1)
  have "cstr_at ((pre @ mid) @ y) dest = t" for y
    using tok dest stop [of y] stop [of "r @ NUL # post"] by (simp add: cstr_at_def)
  then show ?thesis using res by (intro exI [of _ "pre @ mid"] exI [of _ dest]) simp
qed


text \<open>A line of the share file with the five fields of the credentials.\<close>

definition creds_line :: "string \<Rightarrow> string \<Rightarrow> string \<Rightarrow> string \<Rightarrow> string \<Rightarrow> string" where
  "creds_line host port k1 k2 user =
     host @ CHR 0x09 # port @ CHR 0x09 # k1 @ CHR 0x09 # k2 @ CHR 0x09 # user @ [CHR ''\<newline>'']"

lemma clean_field_no_NUL: "clean_field t \<Longrightarrow> NUL \<notin> set t"
  by (simp add: clean_field_def)

lemma delim_not_NUL: "NUL \<noteq> CHR 0x09" "NUL \<noteq> CHR ''\<newline>''"
  by (simp_all add: NUL_def)

lemma is_delim_tab_newline: "is_delim (CHR 0x09)" "is_delim (CHR ''\<newline>'')"
  by (simp_all add: is_delim_def)

lemma parse_creds_line:
  assumes "clean_field host" "clean_field port" "clean_field k1" "clean_field k2" "clean_field user"
  shows "parse_creds (creds_line host port k1 k2 user)
    = (Some host, Some port, Some k1, Some k2, Some user)"
proof -
  note nn = assms [THEN clean_field_no_NUL] delim_not_NUL
  let ?r4 = "user @ [CHR ''\<newline>'']" let ?r3 = "k2 @ CHR 0x09 # ?r4"
  let ?r2 = "k1 @ CHR 0x09 # ?r3" let ?r1 = "port @ CHR 0x09 # ?r2"
  have rs: "NUL \<notin> set ?r1" "NUL \<notin> set ?r2" "NUL \<notin> set ?r3" "NUL \<notin> set ?r4" "NUL \<notin> set []"
    using nn by auto
  note tab = is_delim_tab_newline(1)
  from getToken_field [OF assms(1) tab rs(1), of "[]" "[]"]
  obtain p1 d1 where 1: "getToken ((host @ CHR 0x09 # ?r1) @ NUL # []) 0 True
      = (p1 @ ?r1 @ NUL # [], length p1, Some d1)" "\<forall>y. cstr_at (p1 @ y) d1 = host"
    by (elim exE conjE) (rule that, simp_all)
  from getToken_field [OF assms(2) tab rs(2), of p1 "[]"]
  obtain p2 d2 where 2: "getToken (p1 @ ?r1 @ NUL # []) (length p1) True
      = (p2 @ ?r2 @ NUL # [], length p2, Some d2)" "\<forall>y. cstr_at (p2 @ y) d2 = port"
    by (elim exE conjE) (rule that, simp_all)
  from getToken_field [OF assms(3) tab rs(3), of p2 "[]"]
  obtain p3 d3 where 3: "getToken (p2 @ ?r2 @ NUL # []) (length p2) True
      = (p3 @ ?r3 @ NUL # [], length p3, Some d3)" "\<forall>y. cstr_at (p3 @ y) d3 = k1"
    by (elim exE conjE) (rule that, simp_all)
  from getToken_field [OF assms(4) tab rs(4), of p3 "[]"]
  obtain p4 d4 where 4: "getToken (p3 @ ?r3 @ NUL # []) (length p3) True
      = (p4 @ ?r4 @ NUL # [], length p4, Some d4)" "\<forall>y. cstr_at (p4 @ y) d4 = k2"
    and p4: "prefix p3 p4"
    by (elim exE conjE) (rule that, simp_all)
  from getToken_field [OF assms(5) is_delim_tab_newline(2) rs(5), of p4 "[]"]
  obtain p5 d5 where 5: "getToken (p4 @ ?r4 @ NUL # []) (length p4) True
      = (p5 @ [] @ NUL # [], length p5, Some d5)" "\<forall>y. cstr_at (p5 @ y) d5 = user"
    and p5: "prefix p4 p5"
    by (elim exE conjE) (rule that, simp_all)
  from p4 p5 obtain x4 x5 where x: "p4 = p3 @ x4" "p5 = p4 @ x5" by (auto elim!: prefixE)
  have "cstr_at (p5 @ [NUL]) d3 = k1" "cstr_at (p5 @ [NUL]) d4 = k2"
    using 3(2) 4(2) by (simp_all add: x)
  with 1 2 3 4 5 show ?thesis
    by (simp add: parse_creds_def creds_line_def getToken_dup_def)
qed

subsection \<open>What the share file leaves behind\<close>

text \<open>
  The lines of the file as \<open>fgets\<close> cuts them, and the table that a list of drives makes: the first
  \<open>DRIVEMAX\<close> of them, then cleared entries. The loops \<open>for (i = 0; i < DRIVEMAX; ++i)\<close> over the table
  rely on its shape.
\<close>

function share_lines :: "string \<Rightarrow> string list" where
  "share_lines h = (case fgets 500 h of None \<Rightarrow> [] | Some (line, h') \<Rightarrow> line # share_lines h')"
  by pat_completeness auto
termination
  by (relation "measure length") (auto dest: fgets_progress)

declare share_lines.simps [simp del]

definition drive_table :: "netdrive list \<Rightarrow> netdrive list" where
  "drive_table ds = take DRIVEMAX ds @ replicate (DRIVEMAX - length ds) empty_drive"

definition drive_used :: "netdrive \<Rightarrow> bool" where
  "drive_used d \<longleftrightarrow> (case nd_path d of None \<Rightarrow> False | Some p \<Rightarrow> p \<noteq> [])"

lemma drive_used_empty [simp]: "\<not> drive_used empty_drive"
  by (simp add: drive_used_def empty_drive_def)

lemma parse_drive_used: "parse_drive resolve line = Some d \<Longrightarrow> drive_used d \<and> \<not> nd_success d"
  by (auto simp: parse_drive_def drive_used_def Let_def split: prod.splits if_splits option.splits)

lemma length_drive_table [simp]: "length (drive_table ds) = DRIVEMAX"
  by (simp add: drive_table_def)

lemma store_drive_table:
  assumes "length ds < DRIVEMAX"
  shows "store_drive (drive_table ds) (length ds) d = drive_table (ds @ [d])"
    and "store_drive (drive_table ds) (length ds) empty_drive = drive_table ds"
proof -
  have "DRIVEMAX - length ds = Suc (DRIVEMAX - Suc (length ds))" using assms by simp
  then have "drive_table ds = ds @ empty_drive # replicate (DRIVEMAX - Suc (length ds)) empty_drive"
    using assms by (simp add: drive_table_def)
  with assms show "store_drive (drive_table ds) (length ds) d = drive_table (ds @ [d])"
    and "store_drive (drive_table ds) (length ds) empty_drive = drive_table ds"
    by (auto simp: store_drive_def drive_table_def [of "ds @ [d]"] list_update_append)
qed

lemma read_drives_table:
  "idx = length us \<Longrightarrow> length us \<le> DRIVEMAX \<Longrightarrow> ds = drive_table us \<Longrightarrow>
     read_drives resolve h idx ds = drive_table (us @ List.map_filter (parse_drive resolve) (share_lines h))"
proof (induction resolve h idx ds arbitrary: us rule: read_drives.induct)
  case (1 resolve h idx ds)
  show ?case
  proof (cases "fgets 500 h")
    case None
    then show ?thesis using "1.prems" by (simp add: read_drives.simps share_lines.simps)
  next
    case (Some p)
    obtain line h' where p: "p = (line, h')" by (cases p)
    show ?thesis
    proof (cases "idx < DRIVEMAX")
      case False
      with Some p "1.prems" show ?thesis
        by (simp add: read_drives.simps [of _ h] drive_table_def)
    next
      case True
      note IH = "1.IH" [OF Some p [symmetric] True]
      have lines: "share_lines h = line # share_lines h'" using Some p by (simp add: share_lines.simps)
      show ?thesis
      proof (cases "parse_drive resolve line")
        case None
        with IH(1) [of us] "1.prems" True Some p lines store_drive_table(2) [of us] show ?thesis
          by (simp add: read_drives.simps [of _ h])
      next
        case (Some d)
        with IH(2) [of d "us @ [d]"] "1.prems" True \<open>fgets 500 h = Some p\<close> p lines store_drive_table(1) [of us d]
        show ?thesis by (simp add: read_drives.simps [of _ h])
      qed
    qed
  qed
qed

text \<open>What follows the first line of the share file.\<close>

definition after_creds :: "string option \<Rightarrow> string" where
  "after_creds file = (case file of None \<Rightarrow> [] | Some content \<Rightarrow>
     (case fgets 300 content of None \<Rightarrow> [] | Some (line, h) \<Rightarrow> h))"

text \<open>
  C19: after reading the share file, whatever it contains, the drive table holds the drives of its
  well-formed lines behind the first one, in their order and at most \<open>DRIVEMAX\<close> of them, and behind
  them only cleared entries: no entry outside of the array is written, however many lines there
  are, and malformed lines leave nothing behind. Every entry taken from a line has a non-empty path.
\<close>

theorem readShareFile_drives:
  assumes "\<not> shareFileOk g"
  shows "\<exists>ds. ds = List.map_filter (parse_drive resolve) (share_lines (after_creds fopt)) \<and>
    drives (readShareFile resolve fopt g)
      = take DRIVEMAX ds @ replicate (DRIVEMAX - length ds) empty_drive \<and>
    length (drives (readShareFile resolve fopt g)) = DRIVEMAX \<and> list_all drive_used ds"
proof -
  let ?ds = "List.map_filter (parse_drive resolve) (share_lines (after_creds fopt))"
  have start: "replicate DRIVEMAX empty_drive = drive_table []" by (simp add: drive_table_def)
  have "drives (readShareFile resolve fopt g) = drive_table ?ds"
  proof (cases fopt)
    case None
    with assms show ?thesis
      by (simp add: readShareFile_def start after_creds_def share_lines.simps fgets_def)
  next
    case (Some content)
    have "read_drives resolve h 0 (drive_table []) = drive_table (List.map_filter (parse_drive resolve) (share_lines h))"
      for h using read_drives_table [of 0 "[]"] by simp
    with Some assms show ?thesis
      by (auto simp: readShareFile_def start after_creds_def Let_def fgets_def split: prod.splits)
  qed
  moreover have "list_all drive_used ?ds"
    using parse_drive_used by (auto simp: list_all_iff map_filter_def)
  ultimately show ?thesis by (auto simp: drive_table_def)
qed

definition example_drive_line :: string where
  "example_drive_line = [CHR 0x5C, CHR 0x5C] @ ''s'' @ [CHR 0x5C] @ ''x'' @ [CHR 0x09] @ ''X:'' @ [CHR ''\<newline>'']"

lemma example_drive_parsed:
  "map_option nd_path (parse_drive (\<lambda>_. None) example_drive_line)
     = Some (Some ([CHR 0x5C, CHR 0x5C] @ ''s'' @ [CHR 0x5C] @ ''x''))"
  "parse_drive (\<lambda>_. None) [CHR ''\<newline>''] = None"
  by code_simp+

lemma fgets_example: "fgets 500 (example_drive_line @ r) = Some (example_drive_line, r)"
  using fgets_line [of "butlast example_drive_line" 500 r] by (simp add: example_drive_line_def)

theorem readShareFile_drives_witness:
  "\<exists>d. nd_path d = Some ([CHR 0x5C, CHR 0x5C] @ ''s'' @ [CHR 0x5C] @ ''x'') \<and>
     drives (readShareFile (\<lambda>_. None) (Some (''a'' @ CHR ''\<newline>'' # CHR ''\<newline>'' # example_drive_line @ example_drive_line)) creds_init)
       = [d, d] @ replicate 98 empty_drive"
proof -
  obtain d where d: "parse_drive (\<lambda>_. None) example_drive_line = Some d"
      "nd_path d = Some ([CHR 0x5C, CHR 0x5C] @ ''s'' @ [CHR 0x5C] @ ''x'')"
    using example_drive_parsed(1) by (cases "parse_drive (\<lambda>_. None) example_drive_line") auto
  let ?file = "''a'' @ CHR ''\<newline>'' # CHR ''\<newline>'' # example_drive_line @ example_drive_line"
  have "after_creds (Some ?file) = CHR ''\<newline>'' # example_drive_line @ example_drive_line"
    using fgets_line [of "''a''" 300] by (simp add: after_creds_def)
  moreover have "share_lines (CHR ''\<newline>'' # example_drive_line @ example_drive_line)
      = [[CHR ''\<newline>''], example_drive_line, example_drive_line]"
    using fgets_line [of "[]" 500] fgets_example [of example_drive_line] fgets_example [of "[]"]
    by (simp add: share_lines.simps fgets_def [of 500 "[]"])
  ultimately have "List.map_filter (parse_drive (\<lambda>_. None)) (share_lines (after_creds (Some ?file))) = [d, d]"
    by (simp add: example_drive_parsed(2) d(1))
  with readShareFile_drives [of creds_init "\<lambda>_. None" "Some ?file"] d(2) show ?thesis
    by (auto simp: creds_init_def DRIVEMAX_def)
qed

subsection \<open>The credentials over a session\<close>

text \<open>
  The agent reads the share file, asks for the password and receives datagrams in any order and
  any number of times: \<open>setupNetworkDrives\<close> runs on a timer and the socket reports by message.
  Data arrives only on the open socket; \<open>recv\<close> on any other fails.
\<close>

datatype cred_event =
    ReadShares "string \<Rightarrow> string option" "string option"
  | Query netcalls
  | Datagram "byte list option"

fun cred_step :: "creds \<Rightarrow> cred_event \<Rightarrow> creds" where
  "cred_step g (ReadShares resolve content) = readShareFile resolve content g"
| "cred_step g (Query nc) = fst (snd (queryPasswordDaemon nc g))"
| "cred_step g (Datagram d) = fst (udpReceived_pass (if sockOpen g then d else None) g)"

definition keys_ok :: "creds \<Rightarrow> bool" where
  "keys_ok g \<longleftrightarrow>
     (case (bkey1 g, bkey2 g, sport g) of
        (Some k1, Some k2, Some p) \<Rightarrow>
          length k1 = GKEYLEN \<and> length k2 = GKEYLEN \<and> 1000 \<le> atoi_win p \<and> atoi_win p \<le> 65535
      | _ \<Rightarrow> False)"

definition creds_ok :: "creds \<Rightarrow> bool" where
  "creds_ok g \<longleftrightarrow>
     (shareFileOk g \<longrightarrow> shost g \<noteq> None \<and> sport g \<noteq> None \<and> suser g \<noteq> None \<and>
        (spass g = None \<longrightarrow> keys_ok g)) \<and>
     (sockOpen g \<longrightarrow> shareFileOk g \<and> keys_ok g)"

lemma length_hex2bin: "length (hex2bin s) = length s div 2"
  by (induction s rule: hex2bin.induct) auto

lemma creds_ok_init: "creds_ok creds_init"
  by (simp add: creds_ok_def creds_init_def)

lemma readShareFile_creds_ok:
  assumes "creds_ok g"
  shows "creds_ok (readShareFile resolve content g)"
proof (cases "shareFileOk g")
  case True
  with assms show ?thesis by (simp add: readShareFile_def)
next
  case False
  with assms have "\<not> sockOpen g" by (auto simp: creds_ok_def)
  with False show ?thesis
    by (auto simp: readShareFile_def creds_ok_def keys_ok_def length_hex2bin Let_def
        split: prod.splits option.splits)
qed

lemma queryPasswordDaemon_creds_ok:
  assumes "creds_ok g"
  shows "creds_ok (fst (snd (queryPasswordDaemon nc g)))"
  using assms
  by (auto simp: queryPasswordDaemon_def creds_ok_def keys_ok_def Let_def split: option.splits)

lemma udpReceived_pass_creds_ok:
  assumes "creds_ok g"
  shows "creds_ok (fst (udpReceived_pass d g))"
  using assms
  by (auto simp: udpReceived_pass_def creds_ok_def keys_ok_def Let_def split: option.splits)

interpretation cred_machine: invariant_machine cred_step "\<lambda>_. True" creds_ok
  using readShareFile_creds_ok queryPasswordDaemon_creds_ok udpReceived_pass_creds_ok
  by unfold_locales (case_tac e, auto)

text \<open>
  C18: whatever share files are read, datagrams received and queries made before, a query that
  sends a datagram sends the sixteen bytes of the first key to the host of the share file, at a
  port between 1000 and 65535: no NULL pointer is used and the port is not truncated.
\<close>

theorem query_sends_first_key:
  assumes "g = foldl cred_step creds_init es"
    and "queryPasswordDaemon nc g = (r, g', Some (host, port, dgram))"
  shows "shost g = Some host \<and> bkey1 g = Some dgram \<and> length dgram = 16 \<and> 1000 \<le> unat port \<and>
    (\<exists>p. sport g = Some p \<and> atoi_win p = uint port)"
proof -
  have "creds_ok g"
    unfolding assms(1) by (rule cred_machine.run_good) (simp_all add: creds_ok_init list_all_iff)
  from assms(2) have sent: "shareFileOk g" "spass g = None" "host = the (shost g)"
      "port = word_of_int (atoi_win (the (sport g)))" "dgram = take GKEYLEN (the (bkey1 g))"
    by (auto simp: queryPasswordDaemon_def Let_def split: if_splits)
  with \<open>creds_ok g\<close> obtain h p k1 where fields: "shost g = Some h" "sport g = Some p"
      "bkey1 g = Some k1" "length k1 = GKEYLEN" "1000 \<le> atoi_win p" "atoi_win p \<le> 65535"
    by (auto simp: creds_ok_def keys_ok_def split: option.splits)
  then have "uint (word_of_int (atoi_win p) :: u16) = atoi_win p"
    by (simp add: uint_word_of_int_eq take_bit_int_eq_self)
  with sent fields show ?thesis by (simp add: GKEYLEN_def unat_eq_nat_uint)
qed

lemma clean_field_no_newline: "clean_field t \<Longrightarrow> CHR ''\<newline>'' \<notin> set t"
  by (auto simp: clean_field_def list_all_iff is_delim_def)

lemma fgets_creds_line:
  assumes "clean_field host" "clean_field port" "clean_field k1" "clean_field k2" "clean_field user"
    and "length (creds_line host port k1 k2 user) < n"
  shows "fgets n (creds_line host port k1 k2 user @ rest)
    = Some (creds_line host port k1 k2 user, rest)"
  using fgets_line [of "host @ CHR 0x09 # port @ CHR 0x09 # k1 @ CHR 0x09 # k2 @ CHR 0x09 # user" n rest]
    assms(1-5) [THEN clean_field_no_newline] assms(6)
  by (simp add: creds_line_def)

lemma readShareFile_creds_line:
  assumes "clean_field host" "clean_field port" "clean_field k1" "clean_field k2" "clean_field user"
    and "length (creds_line host port k1 k2 user) < 300"
    and "length k1 = 2 * GKEYLEN" "length k2 = 2 * GKEYLEN"
    and "1000 \<le> atoi_win port" "atoi_win port \<le> 65535" "hd host \<noteq> CHR ''-''"
    and "\<not> shareFileOk g"
  shows "readShareFile resolve (Some (creds_line host port k1 k2 user @ rest)) g =
    g\<lparr>drives := read_drives resolve rest 0 (replicate DRIVEMAX empty_drive), shost := Some host,
      sport := Some port, suser := Some user, bkey1 := Some (hex2bin k1), bkey2 := Some (hex2bin k2),
      shareFileOk := True\<rparr>"
proof -
  have "take 1 host \<noteq> ''-''" using assms(1,11) by (cases host) (auto simp: clean_field_def)
  with assms fgets_creds_line [OF assms(1-6), of rest] parse_creds_line [OF assms(1-5)]
  show ?thesis by (simp add: readShareFile_def)
qed

definition example_share_file :: string where
  "example_share_file = creds_line ''192.168.101.1'' ''1234'' ''000102030405060708090a0b0c0d0e0f''
     ''f0e0d0c0b0a090807060504030201000'' ''ab12''"

definition example_creds :: creds where
  "example_creds = foldl cred_step creds_init [ReadShares (\<lambda>_. None) (Some example_share_file)]"

lemma example_creds_eq:
  "example_creds = creds_init\<lparr>drives := read_drives (\<lambda>_. None) [] 0 (replicate DRIVEMAX empty_drive),
     shost := Some ''192.168.101.1'', sport := Some ''1234'', suser := Some ''ab12'',
     bkey1 := Some (hex2bin ''000102030405060708090a0b0c0d0e0f''),
     bkey2 := Some (hex2bin ''f0e0d0c0b0a090807060504030201000''), shareFileOk := True\<rparr>"
proof -
  have "atoi_win ''1234'' = 1234"
    by (simp add: atoi_win_def c_strtol_def c_isspace_def c_isdigit_def digits_val_def digit_val_def
        clamp_def)
  then show ?thesis
    using readShareFile_creds_line [of "''192.168.101.1''" "''1234''"
        "''000102030405060708090a0b0c0d0e0f''" "''f0e0d0c0b0a090807060504030201000''" "''ab12''"
        creds_init "\<lambda>_. None" "[]"]
    by (simp add: example_creds_def example_share_file_def clean_field_def is_delim_def NUL_def
        creds_line_def GKEYLEN_def creds_init_def)
qed

theorem query_sends_first_key_witness:
  "bkey1 example_creds =
     Some (snd (snd (the (snd (snd (queryPasswordDaemon
       \<lparr>nc_window = True, nc_wsa = 0, nc_socket = True, nc_sent = 16\<rparr> example_creds))))))"
proof -
  let ?nc = "\<lparr>nc_window = True, nc_wsa = 0, nc_socket = True, nc_sent = 16\<rparr>"
  obtain r g' host port dgram where
    "queryPasswordDaemon ?nc example_creds = (r, g', Some (host, port, dgram))"
    by (simp add: queryPasswordDaemon_def example_creds_eq creds_init_def GKEYLEN_def)
  then show ?thesis
    using query_sends_first_key [OF example_creds_def] by simp
qed

end
