(* ===== verification/Handover.thy ===== *)
theory Handover
  imports PwDaemon GuestCreds
begin

section \<open>The password hand-over from the host to the guest\<close>

text \<open>
  The path of the password through both programs. \<open>setup_virtual_floppy.inc\<close> writes the host's
  address in front of the line that \<open>pwdaemon --query\<close> prints, and the guest agent reads this as
  the first line of its share file, asks the daemon's UDP port with the first key and decrypts the
  answer with the second. The two interfaces involved are stated as locales: the hexadecimal text
  in which the keys travel (\<open>hex_codec\<close>, provided by \<open>bin2hex\<close> of the daemon and \<open>hex2bin\<close> of the
  agent), and the encrypted datagram (\<open>sealed_channel\<close>, provided by \<open>xorString\<close> on both sides and
  the length check of \<open>udpReceived\<close>).
\<close>

subsection \<open>Interfaces\<close>

locale hex_codec =
  fixes encode :: "byte list \<Rightarrow> string"
    and decode :: "string \<Rightarrow> byte list"
  assumes decode_encode: "decode (encode bs) = bs"
    and length_encode: "length (encode bs) = 2 * length bs"
    and encode_clean: "bs \<noteq> [] \<Longrightarrow> clean_field (encode bs)"
begin

lemma encode_inject: "encode bs = encode cs \<longleftrightarrow> bs = cs"
  by (metis decode_encode)

end

locale sealed_channel = hex_codec encode decode
  for encode :: "byte list \<Rightarrow> string" and decode :: "string \<Rightarrow> byte list" +
  fixes seal :: "string \<Rightarrow> byte list \<Rightarrow> byte list"
    and unseal :: "byte list \<Rightarrow> byte list \<Rightarrow> string option"
    and key_ok :: "byte list \<Rightarrow> bool"
    and text_ok :: "string \<Rightarrow> bool"
  assumes unseal_seal: "key_ok k \<Longrightarrow> text_ok p \<Longrightarrow> unseal k (seal p k) = Some p"
begin

lemma unseal_transported:
  "key_ok k \<Longrightarrow> text_ok p \<Longrightarrow> unseal (decode (encode k)) (seal p k) = Some p"
  by (simp add: decode_encode unseal_seal)

lemma seal_inject: "key_ok k \<Longrightarrow> text_ok p \<Longrightarrow> text_ok q \<Longrightarrow> seal p k = seal q k \<Longrightarrow> p = q"
  by (metis option.inject unseal_seal)

end

subsection \<open>The keys as text\<close>

lemma getbin_hexconvtab:
  assumes "n < 16"
  shows "getbin (c_char (hexconvtab ! n)) = int n"
proof -
  have "n \<in> {0, 1, 2, 3, 4, 5, 6, 7, 8, 9, 10, 11, 12, 13, 14, 15}" using assms by (simp, presburger)
  then show ?thesis
    by (elim insertE emptyE) (simp_all add: hexconvtab_def getbin_def c_char_def byte_of_char_def)
qed

lemma nibbles_join:
  "ucast (push_bit 4 (ucast (drop_bit 4 b) :: u32) OR ucast (b AND 0xf)) = (b :: byte)"
proof (rule bit_word_eqI)
  fix n assume "n < LENGTH(8)"
  have mask: "b AND 0xf = take_bit 4 b"
    by (simp add: take_bit_eq_mask mask_eq_exp_minus_1)
  show "bit (ucast (push_bit 4 (ucast (drop_bit 4 b) :: u32) OR ucast (b AND 0xf)) :: byte) n = bit b n"
    using \<open>n < LENGTH(8)\<close> unfolding mask by (auto simp: bit_simps)
qed

lemma hex2bin_bin2hex: "hex2bin (bin2hex bs) = bs"
proof (induction bs)
  case Nil
  then show ?case by (simp add: bin2hex_def)
next
  case (Cons b bs)
  have "bin2hex (b # bs) =
      hexconvtab ! unat (drop_bit 4 b) # hexconvtab ! unat (b AND 0xf) # bin2hex bs"
    by (simp add: bin2hex_def)
  moreover have "(word_of_int (int (unat x)) :: u32) = ucast x" for x :: byte
    by simp
  ultimately show ?case
    using Cons nibbles_join [of b] by (simp only: hex2bin.simps getbin_hexconvtab nibbles_less_16)
qed

lemma bin2hex_clean: "bs \<noteq> [] \<Longrightarrow> clean_field (bin2hex bs)"
proof -
  assume "bs \<noteq> []"
  then have ne: "bin2hex bs \<noteq> []" by (cases bs) (simp_all add: bin2hex_def)
  have chars: "c \<noteq> NUL \<and> \<not> is_delim c \<and> c \<noteq> CHR '' ''" if "c \<in> set (bin2hex bs)" for c
    using that set_bin2hex [of bs] by (auto simp: hexconvtab_def NUL_def is_delim_def)
  from ne have "hd (bin2hex bs) \<in> set (bin2hex bs)" "last (bin2hex bs) \<in> set (bin2hex bs)" by auto
  with ne chars show ?thesis by (auto simp: clean_field_def list_all_iff)
qed

interpretation key_text: hex_codec bin2hex hex2bin
  by unfold_locales (simp_all add: hex2bin_bin2hex length_bin2hex bin2hex_clean)

subsection \<open>The encrypted password\<close>

text \<open>What the agent takes from a datagram with a given second key.\<close>

definition unseal_pass :: "byte list \<Rightarrow> byte list \<Rightarrow> string option" where
  "unseal_pass k dgram = spass (fst (udpReceived_pass (Some dgram) (creds_init\<lparr>bkey2 := Some k\<rparr>)))"

text \<open>The texts the two-byte prefix can describe: fewer than 256 characters, none of them NUL.\<close>

definition short_text :: "string \<Rightarrow> bool" where
  "short_text p \<longleftrightarrow> NUL \<notin> set p \<and> length p < 256"

lemma prefix_length: "(push_bit 8 (ucast (0 :: byte)) OR ucast (b :: byte) :: u16) = ucast b"
  by simp

lemma xorString_wr_xorString_pwd:
  assumes "NUL \<notin> set p"
  shows "xorString_wr (map (\<lambda>i. byte_of_char (p ! i) XOR k ! (i mod KEYLEN)) [0..<length p])
           (length p) k = p"
proof -
  have "map (\<lambda>i. char_of_byte (map (\<lambda>i. byte_of_char (p ! i) XOR k ! (i mod KEYLEN)) [0..<length p] ! i
          XOR k ! (i mod GKEYLEN))) [0..<length p] = map (\<lambda>i. p ! i) [0..<length p]"
    by (rule map_cong) (auto simp: KEYLEN_def GKEYLEN_def)
  also have "\<dots> = p" by (rule map_nth)
  finally show ?thesis using assms by (simp add: xorString_wr_def)
qed

lemma udpReceived_pass_sealed:
  assumes "short_text p" and "bkey2 g = Some k"
  shows "udpReceived_pass (Some (xorString_pwd p k)) g = (g\<lparr>spass := Some p\<rparr>, True)"
proof -
  have "unat (ucast (word_of_nat (length p) :: byte) :: u16) = length p"
    using assms(1)
    by (simp add: short_text_def unsigned_ucast_eq unsigned_of_nat take_bit_nat_eq_self)
  with assms xorString_wr_xorString_pwd [of p k] show ?thesis
    by (simp add: udpReceived_pass_def xorString_pwd_eq Let_def short_text_def)
qed

interpretation password_datagram:
  sealed_channel bin2hex hex2bin xorString_pwd unseal_pass "\<lambda>k. length k = KEYLEN" short_text
  by unfold_locales (simp add: unseal_pass_def udpReceived_pass_sealed)

text \<open>
  C15: the encryption of the daemon and the decryption of the agent are inverse for every password
  of fewer than 256 characters, with the key transported as hexadecimal text in between.
\<close>

theorem sealed_password_roundtrip:
  assumes "length k = KEYLEN" and "NUL \<notin> set p" and "length p < 256"
  shows "unseal_pass (hex2bin (bin2hex k)) (xorString_pwd p k) = Some p"
  using assms by (intro password_datagram.unseal_transported) (simp_all add: short_text_def)

theorem sealed_password_roundtrip_witness:
  "unseal_pass (hex2bin (bin2hex (replicate 16 0xa5))) (xorString_pwd ''p@ss'' (replicate 16 0xa5))
     = Some ''p@ss''"
  by (rule sealed_password_roundtrip) (simp_all add: KEYLEN_def NUL_def)

subsection \<open>From the daemon's state to the agent's password\<close>

text \<open>The first line of the share file: the address the host puts in front of the query's line.\<close>

definition share_line :: "string \<Rightarrow> string" where
  "share_line query = ''192.168.101.1'' @ CHR 0x09 # query"

lemma show_port_clean: "0 \<le> port \<Longrightarrow> clean_field (show_int port)"
proof -
  assume "0 \<le> port"
  have ne: "show_nat (nat port) \<noteq> []" by (rule show_nat_not_Nil)
  then have "hd (show_nat (nat port)) \<in> set (show_nat (nat port))"
    "last (show_nat (nat port)) \<in> set (show_nat (nat port))" by auto
  with ne \<open>0 \<le> port\<close> show ?thesis
    using show_nat_digits [of _ "nat port"] c_isdigit_not_NUL c_isdigit_not_delim
    by (fastforce simp: clean_field_def show_int_def list_all_iff is_delim_def)
qed

lemma share_line_creds_line:
  assumes "holds_password st u p"
  shows "share_line (get_reply st port)
    = creds_line ''192.168.101.1'' (show_int port) (bin2hex (key1 st)) (bin2hex (key2 st)) u"
  using assms by (simp add: share_line_def get_reply_def creds_line_def holds_password_def)

lemma readShareFile_share_line:
  assumes "holds_password st u p" and "clean_field u" and "length u \<le> 126"
    and "40000 \<le> port" and "port < 60000"
  shows "readShareFile resolve (Some (share_line (get_reply st port) @ rest)) creds_init =
    creds_init\<lparr>drives := read_drives resolve rest 0 (replicate DRIVEMAX empty_drive),
      shost := Some ''192.168.101.1'', sport := Some (show_int port), suser := Some u,
      bkey1 := Some (key1 st), bkey2 := Some (key2 st), shareFileOk := True\<rparr>"
proof -
  have keys: "key1 st \<noteq> []" "key2 st \<noteq> []" and len: "length (key1 st) = 16" "length (key2 st) = 16"
    using assms(1) by (auto simp: holds_password_def KEYLEN_def)
  have host: "clean_field ''192.168.101.1''"
    by (simp add: clean_field_def NUL_def is_delim_def)
  have port: "atoi_win (show_int port) = port"
    using assms(4,5) atoi_win_show_nat [of "nat port"] by (simp add: show_int_def)
  have "length (creds_line ''192.168.101.1'' (show_int port) (bin2hex (key1 st)) (bin2hex (key2 st)) u)
      = 87 + length u"
    using length_get_reply [OF assms(1), of port] assms(4,5)
    by (simp add: share_line_creds_line [OF assms(1), symmetric] share_line_def)
  with assms(3) have line:
    "length (creds_line ''192.168.101.1'' (show_int port) (bin2hex (key1 st)) (bin2hex (key2 st)) u) < 300"
    by simp
  show ?thesis
    unfolding share_line_creds_line [OF assms(1)]
    by (subst readShareFile_creds_line [OF host show_port_clean bin2hex_clean [OF keys(1)]
          bin2hex_clean [OF keys(2)] assms(2) line])
      (use assms(4,5) len port in \<open>simp_all add: length_bin2hex GKEYLEN_def hex2bin_bin2hex creds_init_def\<close>)
qed

text \<open>
  Winsock's \<open>recv\<close> on a datagram socket, as documented: a datagram that fits the buffer is
  delivered whole, a larger one makes the call fail with \<open>WSAEMSGSIZE\<close>.
\<close>

definition recv_datagram :: "nat \<Rightarrow> (byte list \<Rightarrow> byte list option) \<Rightarrow> bool" where
  "recv_datagram cap recv \<longleftrightarrow> (\<forall>d. recv d = (if length d \<le> cap then Some d else None))"

text \<open>
  C1: the whole hand-over. A daemon started for user \<open>u\<close> with password \<open>p\<close> answers
  \<open>pwdaemon --query\<close>; the share file built from that line makes the agent send a datagram to the
  daemon's address and port; the daemon answers it, and the agent ends up with exactly the password
  \<open>p\<close> for user \<open>u\<close> if \<open>p\<close> has at most 198 characters, and with no password at all if it is longer.
\<close>

theorem password_handover:
  assumes start: "setup_vars ok d1 d2 rnd u p = Some (Some st, n)"
    and texts: "clean_field u" "length u \<le> 126" "NUL \<notin> set p"
    and port: "40000 \<le> port" "port < 60000"
    and recv: "recv_datagram 200 recv"
  shows "\<exists>line g dgram reply.
    mode_query True True True
      (Some (handle_client st port a euid \<lparr>peer_uid = Some euid, request = Some ''GET''\<rparr>)) = (0, line) \<and>
    queryPasswordDaemon \<lparr>nc_window = True, nc_wsa = 0, nc_socket = True, nc_sent = 16\<rparr>
      (readShareFile resolve (Some (share_line line @ rest)) creds_init)
        = (- 1, g, Some (''192.168.101.1'', word_of_int port, dgram)) \<and>
    udp_serve st dgram = Some reply \<and>
    suser g = Some u \<and> spass g = None \<and>
    spass (fst (udpReceived_pass (recv reply) g)) = (if length p \<le> 198 then Some p else None)"
proof -
  have hp: "holds_password st u p" by (rule setup_vars_holds_password [OF start])
  have u: "NUL \<notin> set u" using texts(1) by (rule clean_field_no_NUL)
  have line: "mode_query True True True
      (Some (handle_client st port a euid \<lparr>peer_uid = Some euid, request = Some ''GET''\<rparr>))
      = (0, get_reply st port)"
    by (rule mode_query_complete [OF hp u texts(2) port])
  have atoi: "atoi_win (show_int port) = port"
    using port atoi_win_show_nat [of "nat port"] by (simp add: show_int_def)
  define g where "g = (readShareFile resolve (Some (share_line (get_reply st port) @ rest)) creds_init)
    \<lparr>wsaInit := 0, sockOpen := True\<rparr>"
  have read: "readShareFile resolve (Some (share_line (get_reply st port) @ rest)) creds_init =
    creds_init\<lparr>drives := read_drives resolve rest 0 (replicate DRIVEMAX empty_drive),
      shost := Some ''192.168.101.1'', sport := Some (show_int port), suser := Some u,
      bkey1 := Some (key1 st), bkey2 := Some (key2 st), shareFileOk := True\<rparr>"
    by (rule readShareFile_share_line [OF hp texts(1,2) port])
  have query: "queryPasswordDaemon \<lparr>nc_window = True, nc_wsa = 0, nc_socket = True, nc_sent = 16\<rparr>
      (readShareFile resolve (Some (share_line (get_reply st port) @ rest)) creds_init)
        = (- 1, g, Some (''192.168.101.1'', word_of_int port, key1 st))"
    using hp unfolding g_def read
    by (simp add: queryPasswordDaemon_def creds_init_def atoi holds_password_def KEYLEN_def GKEYLEN_def)
  have serve: "udp_serve st (key1 st) = Some (xorString_pwd p (key2 st))"
    using hp by (simp add: udp_serve_def holds_password_def)
  have g: "bkey2 g = Some (key2 st)" "spass g = None" "suser g = Some u"
    unfolding g_def read by (simp_all add: creds_init_def)
  have "spass (fst (udpReceived_pass (recv (xorString_pwd p (key2 st))) g))
      = (if length p \<le> 198 then Some p else None)"
    using recv texts(3) g udpReceived_pass_sealed [OF _ g(1), of p]
    by (simp add: recv_datagram_def short_text_def udpReceived_pass_def)
  with line query serve g show ?thesis by blast
qed

text \<open>The receive function of the example satisfies the documented behaviour.\<close>

theorem password_handover_witness:
  "\<exists>g dgram reply.
     udp_serve \<lparr>username = ''ab12'', passwordEnc = xorString_pwd ''secret'' (replicate 16 9),
        passwordLen = length ''secret'' + 2, key1 = replicate 16 5, key2 = replicate 16 9,
        key1s = bin2hex (replicate 16 5), key2s = bin2hex (replicate 16 9)\<rparr> dgram = Some reply \<and>
     suser g = Some ''ab12'' \<and>
     spass (fst (udpReceived_pass (if length reply \<le> 200 then Some reply else None) g)) = Some ''secret''"
proof -
  let ?recv = "\<lambda>d. if length d \<le> 200 then Some d else None"
  have texts: "clean_field ''ab12''" "length ''ab12'' \<le> 126" "NUL \<notin> set ''secret''"
    by (simp_all add: clean_field_def NUL_def is_delim_def)
  have port: "(40000 :: int) \<le> 41000" "(41000 :: int) < 60000" by simp_all
  have recv: "recv_datagram 200 ?recv" by (simp add: recv_datagram_def)
  have "(if length ''secret'' \<le> 198 then Some ''secret'' else None) = Some ''secret''" by simp
  with password_handover [OF setup_vars_example [of 5 9 "\<lambda>_. 0" "''ab12''" "''secret''"] texts port
      recv, of False 1000 "\<lambda>_. None" "[]"]
  show ?thesis by metis
qed

end
