(* ===== verification/WinresRes.thy ===== *)
theory WinresRes
  imports CLib "HOL-Library.Multiset"
begin

section \<open>Screen resolution in the guest (run-virt/winres/src/winres.c)\<close>

text \<open>
  \<open>setResolution\<close> reads the wanted resolutions from the settings file and tries three ways of
  setting them, one per call, until \<open>isResolutionFine\<close> finds the wanted screens side by side;
  \<open>tmrResolution\<close> calls it from a timer. This theory holds the parsing, the check, the three ways
  (\<open>setResWinMulti\<close>, \<open>setResVMware\<close>, \<open>setResWinLegacy\<close>), the switch to physical screens
  (\<open>setResModern\<close>) and the state kept between calls.

  What the display API reports is the argument \<open>display\<close>; what a function asks the API to do is
  returned as a list of actions. \<open>long\<close>, \<open>int\<close> and \<open>DWORD\<close> have 32 bits on Windows; widths and
  positions are 32-bit words and are added with wrap-around.
\<close>

definition W_EAGAIN :: int where
  "W_EAGAIN = 11"

definition W_ENOTSUP :: int where
  "W_ENOTSUP = 95"

lemmas res_codes = W_EAGAIN_def W_ENOTSUP_def

definition MAX_SCREENS :: nat where
  "MAX_SCREENS = 16"

definition MAX_PATH :: nat where
  "MAX_PATH = 260"

record resolution =
  res_w :: u32
  res_h :: u32

record devmode =
  dmPelsWidth :: u32
  dmPelsHeight :: u32
  dmPosX :: u32
  dmPosY :: u32

text \<open>The paths of \<open>QueryDisplayConfig\<close> and the modes handed to \<open>SetDisplayConfig\<close>.\<close>

record dc_path =
  targetId :: u32
  targetAdapter :: u64
  targetAvailable :: bool
  sourceId :: u32
  sourceAdapter :: u64
  modeInfoIdx :: nat
  pathActive :: bool

record dc_mode =
  modeAdapter :: u64
  modeId :: u32

text \<open>
  A screen of \<open>EnumDisplayDevicesW\<close>: its current mode and its first mode, where the API gives one.
\<close>

record screen =
  scr_current :: "devmode option"
  scr_first :: "devmode option"

record display =
  hUser32 :: bool
  has_edd :: bool
  has_cds :: bool
  screens :: "screen list"
  old_mode :: "devmode option"
  cds_ret :: "nat \<Rightarrow> int"
  cds_final :: int
  legacy_ret :: "nat \<Rightarrow> int"
  fileExists :: "wstring \<Rightarrow> bool"
  exec_create :: bool
  exec_exit :: "u32 option"
  has_qdc :: bool
  has_sdc :: bool
  qdc_ret :: "(dc_path list \<times> dc_mode list) option"
  adapter_name :: "u64 \<Rightarrow> wstring option"
  sdc_ret :: "bool \<Rightarrow> int"

datatype res_action =
    ChangeScreen nat devmode
  | ApplyScreens
  | ChangeLegacy u32 u32 nat
  | Execute wstring wstring
  | SetDisplayConfig "dc_path list" "dc_mode list" bool

subsection \<open>The settings\<close>

definition parsed_res :: "int \<Rightarrow> int \<Rightarrow> resolution" where
  "parsed_res w h = \<lparr>res_w = word_of_int w, res_h = word_of_int h\<rparr>"

lemma parse_progress:
  assumes "(w, end1) = c_strtol lo hi pos" and "(h, pos') = c_strtol lo hi (tl end1)" and "end1 \<noteq> []"
  shows "length pos' < length pos"
proof -
  have "length pos' \<le> length (tl end1)" "length end1 \<le> length pos"
    using assms(1,2) c_strtol_rest_length [of lo hi pos] c_strtol_rest_length [of lo hi "tl end1"]
    by (metis snd_conv)+
  with assms(3) show ?thesis by (cases end1) simp_all
qed

text \<open>
  The parsing loop: \<open>res\<close> are the entries found so far, the second result is the rest of the text
  when the loop ends.
\<close>

function parse_resolutions :: "string \<Rightarrow> resolution list \<Rightarrow> resolution list \<times> string" where
  "parse_resolutions pos res =
     (if pos = [] \<or> MAX_SCREENS \<le> length res then (res, pos)
      else case strtol_win pos of (w, end1) \<Rightarrow>
        if end1 = [] \<or> hd end1 \<noteq> CHR ''x'' then (res, pos)
        else case strtol_win (tl end1) of (h, pos') \<Rightarrow>
          if pos' \<noteq> [] \<and> hd pos' \<noteq> CHR '' '' then (res, pos')
          else if w < 320 \<or> h < 240 then parse_resolutions pos' res
          else parse_resolutions pos' (res @ [parsed_res w h]))"
  by pat_completeness auto
termination
  by (relation "measure (\<lambda>(pos, res). length pos)") (auto intro: parse_progress)

declare parse_resolutions.simps [simp del]

subsection \<open>The check of the current layout\<close>

fun res_offsets :: "u32 \<Rightarrow> resolution list \<Rightarrow> u32 list" where
  "res_offsets x [] = []"
| "res_offsets x (r # rs) = x # res_offsets (x + res_w r) rs"

text \<open>The first entry that matches the mode is marked with -1.\<close>

fun match_screen :: "u32 list \<Rightarrow> resolution list \<Rightarrow> devmode \<Rightarrow> u32 list option" where
  "match_screen (off # offs) (r # rs) mode =
     (if off = dmPosX mode \<and> res_w r = dmPelsWidth mode \<and> res_h r = dmPelsHeight mode
      then Some (- 1 # offs)
      else map_option ((#) off) (match_screen offs rs mode))"
| "match_screen _ _ mode = None"

fun check_screens :: "u32 list \<Rightarrow> resolution list \<Rightarrow> screen list \<Rightarrow> int" where
  "check_screens offs res [] = (if list_all (\<lambda>x. x = - 1) offs then 0 else W_EAGAIN)"
| "check_screens offs res (s # ss) =
     (case scr_current s of
        None \<Rightarrow> check_screens offs res ss
      | Some mode \<Rightarrow>
          if dmPelsWidth mode = 0 then check_screens offs res ss
          else (case match_screen offs res mode of
                  None \<Rightarrow> W_EAGAIN
                | Some offs' \<Rightarrow> check_screens offs' res ss))"

definition isResolutionFine :: "display \<Rightarrow> resolution list \<Rightarrow> int" where
  "isResolutionFine d res =
     (if \<not> has_edd d then
        (case old_mode d of
           None \<Rightarrow> W_ENOTSUP
         | Some mode \<Rightarrow>
             if res_w (hd res) = dmPelsWidth mode \<and> res_h (hd res) = dmPelsHeight mode
             then 0 else W_EAGAIN)
      else check_screens (res_offsets 0 res) res (screens d))"

subsection \<open>Setting a layout\<close>

text \<open>
  The loop of \<open>setResWinMulti\<close> over the screens, from screen number \<open>num\<close> on; \<open>ires\<close> counts the
  screens changed so far, \<open>sx\<close> is the position of the next one.
\<close>

fun multi_loop ::
  "display \<Rightarrow> resolution list \<Rightarrow> screen list \<Rightarrow> nat \<Rightarrow> nat \<Rightarrow> u32 \<Rightarrow> bool
     \<Rightarrow> nat \<times> bool \<times> res_action list" where
  "multi_loop d res [] num ires sx ok = (ires, ok, [])"
| "multi_loop d res (s # ss) num ires sx ok =
     (case (case scr_current s of Some m \<Rightarrow> Some m | None \<Rightarrow> scr_first s) of
        None \<Rightarrow> multi_loop d res ss (Suc num) ires sx ok
      | Some m \<Rightarrow>
          let m' = (if ires < length res
                    then m\<lparr>dmPelsWidth := res_w (res ! ires), dmPelsHeight := res_h (res ! ires),
                           dmPosX := sx, dmPosY := 0\<rparr>
                    else m\<lparr>dmPelsWidth := 0, dmPelsHeight := 0\<rparr>);
              sx' = (if ires < length res then sx + dmPelsWidth m' else sx);
              (ires', ok', acts) =
                multi_loop d res ss (Suc num) (Suc ires) sx' (if cds_ret d ires = 0 then ok else False)
          in (ires', ok', ChangeScreen num m' # acts))"

definition setResWinMulti :: "display \<Rightarrow> resolution list \<Rightarrow> int \<times> res_action list" where
  "setResWinMulti d res =
     (if \<not> hUser32 d then (W_ENOTSUP, [])
      else if \<not> has_cds d \<or> \<not> has_edd d then (W_ENOTSUP, [])
      else case multi_loop d res (screens d) 0 0 0 True of (ires, ok, acts) \<Rightarrow>
        (if cds_final d \<noteq> 0 \<or> \<not> ok then W_EAGAIN
         else if length res \<le> ires then 0 else W_EAGAIN, acts @ [ApplyScreens]))"

text \<open>The legacy call is repeated with fewer flags (\<open>CDS_GLOBAL\<close> is 8, \<open>CDS_UPDATEREGISTRY\<close> 1).\<close>

fun legacy_tries :: "display \<Rightarrow> resolution \<Rightarrow> nat \<Rightarrow> nat list \<Rightarrow> int \<times> res_action list" where
  "legacy_tries d r k [] = (W_EAGAIN, [])"
| "legacy_tries d r k (f # fs) =
     (if legacy_ret d k = 0 then (0, [ChangeLegacy (res_w r) (res_h r) f])
      else case legacy_tries d r (Suc k) fs of
        (ret, acts) \<Rightarrow> (ret, ChangeLegacy (res_w r) (res_h r) f # acts))"

definition setResWinLegacy :: "display \<Rightarrow> resolution list \<Rightarrow> int \<times> res_action list" where
  "setResWinLegacy d res = legacy_tries d (hd res) 0 [9, 8, 1, 0]"

definition execute :: "display \<Rightarrow> wstring \<Rightarrow> wstring \<Rightarrow> int \<times> res_action list" where
  "execute d path arguments =
     (if \<not> exec_create d then (- 1, [])
      else case exec_exit d of
        None \<Rightarrow> (- 2, [Execute path arguments])
      | Some code \<Rightarrow> (sint code, [Execute path arguments]))"

definition wtext :: "string \<Rightarrow> wstring" where
  "wtext s = map (\<lambda>c. word_of_nat (of_char c)) s"

fun strip_first :: "wstring \<Rightarrow> wstring \<Rightarrow> wstring" where
  "strip_first pat [] = []"
| "strip_first pat (c # s) =
     (if prefix pat (c # s) then drop (length pat) (c # s) else c # strip_first pat s)"

definition cch_append :: "wstring \<Rightarrow> string \<Rightarrow> wstring" where
  "cch_append buf s = take (MAX_PATH - 1) (buf @ wtext s)"

fun vmware_args :: "wstring \<Rightarrow> u32 \<Rightarrow> resolution list \<Rightarrow> wstring" where
  "vmware_args buf sx [] = buf"
| "vmware_args buf sx (r # rs) =
     vmware_args
       (cch_append buf ('' , '' @ show_int (sint sx) @ '' 0 '' @ show_int (sint (res_w r)) @ '' ''
          @ show_int (sint (res_h r))))
       (sx + res_w r) rs"

definition vmware_tool :: string where
  "vmware_tool = [CHR 0x5C] @ ''VMware'' @ [CHR 0x5C] @ ''VMware Tools'' @ [CHR 0x5C]
     @ ''VMwareResolutionSet.exe''"

text \<open>The static path is filled on the first call; the new path is part of the result.\<close>

definition vmware_find :: "display \<Rightarrow> wstring \<Rightarrow> wstring \<Rightarrow> wstring" where
  "vmware_find d programsPath path =
     (if path \<noteq> [] then path
      else let p = take (MAX_PATH - 1) (programsPath @ wtext vmware_tool)
           in if fileExists d p then p else strip_first (wtext '' (x86)'') p)"

definition setResVMware ::
  "display \<Rightarrow> wstring \<Rightarrow> wstring \<Rightarrow> resolution list \<Rightarrow> int \<times> wstring \<times> res_action list" where
  "setResVMware d programsPath path res =
     (let p = vmware_find d programsPath path
      in if \<not> fileExists d p then (W_ENOTSUP, p, [])
         else let cmdline = vmware_args
                    (cch_append [] (''VMwareResolutionSet.exe 0 '' @ show_nat (length res))) 0 res
              in case execute d p cmdline of
                   (ret, acts) \<Rightarrow> (if ret = 0 then 0 else W_EAGAIN, p, acts))"

subsection \<open>Switching to physical screens\<close>

definition DC_MAX :: nat where
  "DC_MAX = 400"

fun wcsstr :: "wstring \<Rightarrow> wstring \<Rightarrow> bool" where
  "wcsstr [] pat = (pat = [])"
| "wcsstr (c # s) pat = (prefix pat (c # s) \<or> wcsstr s pat)"

definition is_real :: "display \<Rightarrow> dc_path \<Rightarrow> bool" where
  "is_real d p =
     (case adapter_name d (targetAdapter p) of
        None \<Rightarrow> False
      | Some name \<Rightarrow>
          wcsstr name (wtext ''#VEN_10DE'') \<or> wcsstr name (wtext ''#VEN_1022'') \<or>
          wcsstr name (wtext ''#VEN_1002'') \<or> wcsstr name (wtext ''#VEN_8086''))"

definition same_target :: "dc_path \<Rightarrow> dc_path \<Rightarrow> bool" where
  "same_target p q \<longleftrightarrow> targetId p = targetId q \<and> targetAdapter p = targetAdapter q"

text \<open>
  The selection loop. The mode array has \<open>DC_MAX\<close> entries, of which the query may already have
  filled all; \<open>None\<close> is a write behind its end.
\<close>

fun modern_loop ::
  "display \<Rightarrow> dc_path list \<Rightarrow> dc_path list \<Rightarrow> dc_mode list \<Rightarrow> (dc_path list \<times> dc_mode list) option" where
  "modern_loop d [] new modes = Some (new, modes)"
| "modern_loop d (p # ps) new modes =
     (if list_ex (same_target p) new then modern_loop d ps new modes
      else if is_real d p \<and> targetAvailable p then
        (if DC_MAX \<le> length modes then None
         else modern_loop d ps (new @ [p\<lparr>pathActive := True, modeInfoIdx := length modes\<rparr>])
                (modes @ [\<lparr>modeAdapter = sourceAdapter p, modeId = sourceId p\<rparr>]))
      else modern_loop d ps new modes)"

definition setResModern :: "display \<Rightarrow> (int \<times> res_action list) option" where
  "setResModern d =
     (if \<not> hUser32 d \<or> \<not> has_qdc d \<or> \<not> has_sdc d then Some (W_ENOTSUP, [])
      else case qdc_ret d of
        None \<Rightarrow> Some (W_ENOTSUP, [])
      | Some (paths, modes) \<Rightarrow>
          (case modern_loop d paths [] modes of
             None \<Rightarrow> None
           | Some (new, modes') \<Rightarrow>
               Some (if new = [] then (W_ENOTSUP, [])
                     else (0, if sdc_ret d True \<noteq> 0
                              then [SetDisplayConfig new modes' True, SetDisplayConfig new modes' False]
                              else [SetDisplayConfig new modes' True]))))"

subsection \<open>The calls of the timer\<close>

record res_settings =
  preferPhysicalScreen :: bool
  ini_resolution2 :: string
  ini_resolution :: string
  programsPath :: wstring

text \<open>The static variables of \<open>setResolution\<close> and \<open>setResVMware\<close>.\<close>

record res_state =
  rs_nres :: int
  rs_res :: "resolution list"
  rs_callCount :: int
  rs_path :: wstring

definition res_init :: res_state where
  "res_init = \<lparr>rs_nres = 0, rs_res = [], rs_callCount = - 1, rs_path = []\<rparr>"

definition ini_text :: "res_settings \<Rightarrow> string" where
  "ini_text cfg =
     (if ini_resolution2 cfg = [] then take 299 (ini_resolution cfg) else take 299 (ini_resolution2 cfg))"

text \<open>The part of \<open>setResolution\<close> after the resolutions are known.\<close>

definition legacy_case ::
  "display \<Rightarrow> int \<Rightarrow> resolution list \<Rightarrow> int \<times> res_action list" where
  "legacy_case d cnt res =
     (case setResWinLegacy d res of
        (ret, acts) \<Rightarrow>
          (if ret = 0 \<and> 1 < length res \<and> cnt \<le> 2 then W_EAGAIN else ret, acts))"

definition vmware_case ::
  "res_settings \<Rightarrow> display \<Rightarrow> res_state \<Rightarrow> int \<times> wstring \<times> res_action list" where
  "vmware_case cfg d st =
     (case setResVMware d (programsPath cfg) (rs_path st) (rs_res st) of
        (ret, path, acts) \<Rightarrow>
          if ret \<noteq> W_ENOTSUP then (ret, path, acts)
          else (case legacy_case d (rs_callCount st) (rs_res st) of
                  (ret', acts') \<Rightarrow> (ret', path, acts @ acts')))"

definition try_resolution ::
  "res_settings \<Rightarrow> display \<Rightarrow> res_state \<Rightarrow> int \<times> wstring \<times> res_action list" where
  "try_resolution cfg d st =
     (if rs_callCount st mod 3 = 0 then
        (case setResWinMulti d (rs_res st) of
           (ret, acts) \<Rightarrow>
             if ret \<noteq> W_ENOTSUP then (ret, rs_path st, acts)
             else (case vmware_case cfg d st of
                     (ret', path, acts') \<Rightarrow> (ret', path, acts @ acts')))
      else if rs_callCount st mod 3 = 1 then vmware_case cfg d st
      else (case legacy_case d (rs_callCount st) (rs_res st) of
              (ret, acts) \<Rightarrow> (ret, rs_path st, acts)))"

definition set_wanted :: "res_settings \<Rightarrow> display \<Rightarrow> res_state \<Rightarrow> int \<times> res_state \<times> res_action list" where
  "set_wanted cfg d st =
     (let st1 = (if rs_nres st = 0
                 then let res = fst (parse_resolutions (ini_text cfg) [])
                      in st\<lparr>rs_res := res, rs_nres := (if res = [] then - 1 else int (length res))\<rparr>
                 else st)
      in if rs_nres st1 = - 1 then (0, st1, [])
         else let check = isResolutionFine d (rs_res st1)
         in if check = 0 then (0, st1, [])
            else case try_resolution cfg d st1 of
              (ret, path, acts) \<Rightarrow>
                (if ret = 0 \<and> check = W_ENOTSUP then 0 else W_EAGAIN, st1\<lparr>rs_path := path\<rparr>, acts))"

definition setResolution ::
  "res_settings \<Rightarrow> display \<Rightarrow> res_state \<Rightarrow> (int \<times> res_state \<times> res_action list) option" where
  "setResolution cfg d st0 =
     (let st = st0\<lparr>rs_callCount := rs_callCount st0 + 1\<rparr>
      in if rs_nres st = - 1 \<or> 10 < rs_callCount st then Some (0, st, [])
         else if preferPhysicalScreen cfg then
           (case setResModern d of
              None \<Rightarrow> None
            | Some (ret, acts) \<Rightarrow>
                if ret = W_ENOTSUP
                then (case set_wanted cfg d st of (r, st', acts') \<Rightarrow> Some (r, st', acts @ acts'))
                else if ret = 0 then Some (0, st\<lparr>rs_callCount := - 1\<rparr>, acts)
                else Some (W_EAGAIN, st, acts))
         else Some (set_wanted cfg d st))"

text \<open>The timer procedure: the new value of \<open>tmrRes\<close> and the timers it stops.\<close>

definition tmrResolution ::
  "res_settings \<Rightarrow> display \<Rightarrow> nat \<Rightarrow> res_state \<times> nat
     \<Rightarrow> ((res_state \<times> nat) \<times> nat list \<times> res_action list) option" where
  "tmrResolution cfg d idEvent s =
     (case s of (st, tmrRes) \<Rightarrow>
        (case setResolution cfg d st of
           None \<Rightarrow> None
         | Some (ret, st', acts) \<Rightarrow>
             Some (if ret = 0
                   then ((st', 0), if idEvent \<noteq> tmrRes then [tmrRes, idEvent] else [tmrRes], acts)
                   else ((st', tmrRes), [], acts))))"

subsection \<open>The parsed resolutions\<close>

definition res_valid :: "resolution \<Rightarrow> bool" where
  "res_valid r \<longleftrightarrow> 320 \<le> sint (res_w r) \<and> 240 \<le> sint (res_h r)"

lemma sint_clamped:
  "- 2147483648 \<le> x \<Longrightarrow> x \<le> 2147483647 \<Longrightarrow> sint (word_of_int x :: u32) = x"
  by (simp add: sint_sbintrunc' signed_take_bit_int_eq_self)

lemma strtol_win_range: "- 2147483648 \<le> fst (strtol_win s) \<and> fst (strtol_win s) \<le> 2147483647"
  by (rule c_strtol_range) simp_all

lemma parsed_res_valid:
  assumes "strtol_win s = (w, e)" and "strtol_win s' = (h, e')" and "\<not> (w < 320 \<or> h < 240)"
  shows "res_valid (parsed_res w h)"
  using assms strtol_win_range [of s] strtol_win_range [of s']
  by (simp add: res_valid_def parsed_res_def sint_clamped)

text \<open>
  Whatever the settings file contains, at most sixteen resolutions are taken from it and each
  is at least 320x240: the fixed array of \<open>setResolution\<close> is not exceeded.
\<close>

theorem parse_resolutions_bounds:
  assumes "list_all res_valid res" and "length res \<le> MAX_SCREENS"
  shows "list_all res_valid (fst (parse_resolutions pos res)) \<and>
         length (fst (parse_resolutions pos res)) \<le> MAX_SCREENS"
  using assms
proof (induction pos res rule: parse_resolutions.induct)
  case (1 pos res)
  then show ?case
    by (subst (1 2) parse_resolutions.simps) (auto split: prod.splits simp: parsed_res_valid)
qed

theorem parse_resolutions_bounds_witness:
  "length (fst (parse_resolutions ''1024x768 x'' [])) \<le> MAX_SCREENS"
  using parse_resolutions_bounds [of "[]" "''1024x768 x''"] by simp

text \<open>A list of resolutions as the host writes it, separated by single spaces.\<close>

fun show_resolutions :: "(nat \<times> nat) list \<Rightarrow> string" where
  "show_resolutions [] = []"
| "show_resolutions [(w, h)] = show_nat w @ CHR ''x'' # show_nat h"
| "show_resolutions ((w, h) # rs) = show_nat w @ CHR ''x'' # show_nat h @ CHR '' '' # show_resolutions rs"

lemma strtol_win_leading_space: "strtol_win (CHR '' '' # show_nat n @ r) = strtol_win (show_nat n @ r)"
proof -
  have "takeWhile c_isdigit (show_nat n @ r) \<noteq> []"
    using show_nat_not_Nil [of n] show_nat_digits [of _ n] by (cases "show_nat n") auto
  moreover have "c_sign (dropWhile c_isspace (show_nat n @ r)) = (False, show_nat n @ r)"
    by (rule c_sign_dropWhile_digits [OF show_nat_not_Nil show_nat_digits])
  ultimately show ?thesis by (simp add: c_strtol_def c_isspace_def)
qed

lemma parse_one_resolution:
  assumes "320 \<le> w" "240 \<le> h" "w \<le> 2147483647" "h \<le> 2147483647" and "length res < MAX_SCREENS"
    and "rest = [] \<or> hd rest = CHR '' ''" and "lead = [] \<or> lead = '' ''"
  shows "parse_resolutions (lead @ show_nat w @ CHR ''x'' # show_nat h @ rest) res
    = parse_resolutions rest (res @ [parsed_res (int w) (int h)])"
proof -
  have "\<not> c_isdigit (CHR ''x'')" "\<not> c_isdigit (CHR '' '')" by (simp_all add: c_isdigit_def)
  then have h: "strtol_win (show_nat h @ rest) = (int h, rest)"
    and w: "strtol_win (show_nat w @ CHR ''x'' # show_nat h @ rest) = (int w, CHR ''x'' # show_nat h @ rest)"
    using assms(3,4,6) by (auto intro!: c_strtol_show_nat)
  have "strtol_win (lead @ show_nat w @ CHR ''x'' # show_nat h @ rest)
      = (int w, CHR ''x'' # show_nat h @ rest)"
    using assms(7) w by (auto simp: strtol_win_leading_space)
  then show ?thesis
    using assms(1,2,5,6) h show_nat_not_Nil [of w]
    by (subst parse_resolutions.simps) auto
qed

lemma parse_show_resolutions:
  assumes "list_all (\<lambda>(w, h). 320 \<le> w \<and> w \<le> 2147483647 \<and> 240 \<le> h \<and> h \<le> 2147483647) rs"
    and "length res + length rs \<le> MAX_SCREENS" and "lead = [] \<or> lead = '' ''" and "rs \<noteq> []"
  shows "parse_resolutions (lead @ show_resolutions rs) res
    = (res @ map (\<lambda>(w, h). parsed_res (int w) (int h)) rs, [])"
  using assms
proof (induction rs arbitrary: res lead rule: show_resolutions.induct)
  case (2 w h)
  then show ?case
    using parse_one_resolution [of w h res "[]" lead] by (simp add: parse_resolutions.simps [of "[]"])
next
  case (3 w h v va)
  then show ?case
    using parse_one_resolution [of w h res "'' '' @ show_resolutions (v # va)" lead]
      "3.IH" [of "res @ [parsed_res (int w) (int h)]" "'' ''"]
    by simp
qed simp

text \<open>
  Up to sixteen resolutions of at least 320x240, printed as \<open>WxH\<close> with single spaces in
  between, are read back in order and without a remainder.
\<close>

theorem parse_resolutions_roundtrip:
  assumes "list_all (\<lambda>(w, h). 320 \<le> w \<and> w \<le> 2147483647 \<and> 240 \<le> h \<and> h \<le> 2147483647) rs"
    and "length rs \<le> 16"
  shows "parse_resolutions (show_resolutions rs) []
    = (map (\<lambda>(w, h). \<lparr>res_w = word_of_nat w, res_h = word_of_nat h\<rparr>) rs, [])"
proof (cases "rs = []")
  case True
  then show ?thesis by (simp add: parse_resolutions.simps [of "[]"])
next
  case False
  with assms parse_show_resolutions [of rs "[]" "[]"] show ?thesis
    by (simp add: MAX_SCREENS_def parsed_res_def)
qed

theorem parse_resolutions_roundtrip_witness:
  "parse_resolutions (show_resolutions [(1920, 1080), (1024, 768)]) []
     = ([\<lparr>res_w = 1920, res_h = 1080\<rparr>, \<lparr>res_w = 1024, res_h = 768\<rparr>], [])"
  using parse_resolutions_roundtrip [of "[(1920, 1080), (1024, 768)]"] by simp

subsection \<open>What the layout check means\<close>

text \<open>
  The screens in use, each with its position and size, and the wanted screens side by side from
  position 0. \<open>pending\<close> are the wanted ones not yet marked.
\<close>

type_synonym placed = "u32 \<times> u32 \<times> u32"

definition place :: "devmode \<Rightarrow> placed" where
  "place m = (dmPosX m, dmPelsWidth m, dmPelsHeight m)"

definition active_modes :: "screen list \<Rightarrow> devmode list" where
  "active_modes ss = filter (\<lambda>m. dmPelsWidth m \<noteq> 0) (List.map_filter scr_current ss)"

fun pending :: "u32 list \<Rightarrow> resolution list \<Rightarrow> placed list" where
  "pending (x # xs) (r # rs) =
     (if x = - 1 then pending xs rs else (x, res_w r, res_h r) # pending xs rs)"
| "pending _ _ = []"

fun wanted :: "u32 \<Rightarrow> resolution list \<Rightarrow> placed list" where
  "wanted x [] = []"
| "wanted x (r # rs) = (x, res_w r, res_h r) # wanted (x + res_w r) rs"

lemma active_modes_simps [simp]:
  "active_modes [] = []"
  "active_modes (s # ss) =
     (case scr_current s of None \<Rightarrow> active_modes ss
      | Some m \<Rightarrow> if dmPelsWidth m = 0 then active_modes ss else m # active_modes ss)"
  by (simp_all add: active_modes_def List.map_filter_def split: option.splits)

lemma match_screen_None:
  "dmPosX m \<noteq> - 1 \<Longrightarrow> length offs = length res \<Longrightarrow>
     match_screen offs res m = None \<longleftrightarrow> place m \<notin> set (pending offs res)"
  by (induction offs res m rule: match_screen.induct) (auto simp: place_def)

lemma match_screen_Some:
  "dmPosX m \<noteq> - 1 \<Longrightarrow> match_screen offs res m = Some offs' \<Longrightarrow> length offs = length res \<Longrightarrow>
     mset (pending offs res) = add_mset (place m) (mset (pending offs' res)) \<and>
     length offs' = length res"
  by (induction offs res m arbitrary: offs' rule: match_screen.induct)
     (auto simp: place_def split: if_splits)

lemma all_marked_pending:
  "length offs = length res \<Longrightarrow> list_all (\<lambda>x. x = - 1) offs \<longleftrightarrow> pending offs res = []"
  by (induction offs res rule: pending.induct) auto

lemma check_screens_correct:
  assumes "length offs = length res" and "\<forall>m \<in> set (active_modes ss). dmPosX m \<noteq> - 1"
  shows "check_screens offs res ss = 0 \<longleftrightarrow>
    mset (map place (active_modes ss)) = mset (pending offs res)"
  using assms
proof (induction ss arbitrary: offs)
  case Nil
  then show ?case by (auto simp: all_marked_pending res_codes)
next
  case (Cons s ss)
  show ?case
  proof (cases "scr_current s = None \<or> dmPelsWidth (the (scr_current s)) = 0")
    case True
    with Cons show ?thesis by (auto split: option.splits)
  next
    case False
    then obtain m where m: "scr_current s = Some m" "dmPelsWidth m \<noteq> 0" by auto
    with Cons.prems have x: "dmPosX m \<noteq> - 1" by simp
    show ?thesis
    proof (cases "match_screen offs res m")
      case None
      with match_screen_None [OF x Cons.prems(1)] m show ?thesis
        by (auto simp: res_codes dest!: union_single_eq_member)
    next
      case (Some offs')
      with match_screen_Some [OF x Some Cons.prems(1)] m Cons show ?thesis by auto
    qed
  qed
qed

lemma pending_res_offsets:
  "- 1 \<notin> set (res_offsets x res) \<Longrightarrow> pending (res_offsets x res) res = wanted x res"
  by (induction res arbitrary: x) auto

lemma length_res_offsets [simp]: "length (res_offsets x res) = length res"
  by (induction res arbitrary: x) auto

lemma isResolutionFine_iff:
  assumes "has_edd d" and "- 1 \<notin> set (res_offsets 0 res)"
    and "\<forall>m \<in> set (active_modes (screens d)). dmPosX m \<noteq> - 1"
  shows "isResolutionFine d res = 0 \<longleftrightarrow>
    mset (map place (active_modes (screens d))) = mset (wanted 0 res)"
  using assms check_screens_correct [of "res_offsets 0 res" res "screens d"]
  by (simp add: isResolutionFine_def pending_res_offsets)

text \<open>
  C6: the layout check succeeds exactly when the screens in use are the wanted ones, placed side
  by side in the configured order, up to the order in which the system lists them: no screen is
  missing, none is left over and none is counted twice. (The position -1 is the marker of the
  check; neither a wanted nor a present screen may sit there.)
\<close>

theorem isResolutionFine_exact:
  assumes "has_edd d" and "- 1 \<notin> set (res_offsets 0 res)"
    and "\<forall>m \<in> set (active_modes (screens d)). dmPosX m \<noteq> - 1"
  shows "isResolutionFine d res = 0 \<longleftrightarrow>
    mset (map place (active_modes (screens d))) = mset (wanted 0 res)"
  using assms by (rule isResolutionFine_iff)

definition example_mode :: "u32 \<Rightarrow> u32 \<Rightarrow> u32 \<Rightarrow> devmode" where
  "example_mode x w h = \<lparr>dmPelsWidth = w, dmPelsHeight = h, dmPosX = x, dmPosY = 0\<rparr>"

definition example_display :: display where
  "example_display =
     \<lparr>hUser32 = True, has_edd = True, has_cds = True,
      screens = [\<lparr>scr_current = Some (example_mode 1024 800 600), scr_first = None\<rparr>,
                 \<lparr>scr_current = None, scr_first = None\<rparr>,
                 \<lparr>scr_current = Some (example_mode 0 1024 768), scr_first = None\<rparr>],
      old_mode = None, cds_ret = (\<lambda>_. 0), cds_final = 0, legacy_ret = (\<lambda>_. 0),
      fileExists = (\<lambda>_. False), exec_create = False, exec_exit = None, has_qdc = False,
      has_sdc = False, qdc_ret = None, adapter_name = (\<lambda>_. None), sdc_ret = (\<lambda>_. 0)\<rparr>"

theorem isResolutionFine_exact_witness:
  "isResolutionFine example_display [\<lparr>res_w = 1024, res_h = 768\<rparr>, \<lparr>res_w = 800, res_h = 600\<rparr>] = 0"
  by (subst isResolutionFine_exact) (simp_all add: example_display_def example_mode_def place_def)

subsection \<open>Setting all screens\<close>

text \<open>A system that carries out the requested changes.\<close>

fun apply_change :: "screen list \<Rightarrow> res_action \<Rightarrow> screen list" where
  "apply_change ss (ChangeScreen n m) = ss[n := (ss ! n)\<lparr>scr_current := Some m\<rparr>]"
| "apply_change ss a = ss"

definition usable :: "screen \<Rightarrow> bool" where
  "usable s \<longleftrightarrow> scr_current s \<noteq> None \<or> scr_first s \<noteq> None"

lemma multi_loop_count:
  "multi_loop d res ss num ires sx ok = (i', ok', acts) \<Longrightarrow> i' = ires + length (filter usable ss)"
  by (induction d res ss num ires sx ok arbitrary: i' ok' acts rule: multi_loop.induct)
     (auto simp: usable_def Let_def split: option.splits prod.splits)

lemma multi_loop_layout:
  assumes "multi_loop d res ss (length pre) ires sx ok = (i', ok', acts)"
    and "\<forall>r \<in> set res. res_w r \<noteq> 0"
  shows "\<exists>ss'. foldl apply_change (pre @ ss) acts = pre @ ss' \<and>
    map place (active_modes ss') = wanted sx (take (length (filter usable ss)) (drop ires res))"
  using assms(1)
proof (induction ss arbitrary: pre ires sx ok i' ok' acts)
  case Nil
  then show ?case by auto
next
  case (Cons s ss)
  show ?case
  proof (cases "usable s")
    case False
    then have none: "scr_current s = None" "scr_first s = None" by (auto simp: usable_def)
    with Cons.prems have "multi_loop d res ss (length (pre @ [s])) ires sx ok = (i', ok', acts)" by simp
    from Cons.IH [OF this] none False show ?thesis by force
  next
    case True
    then obtain m where m: "(case scr_current s of Some m \<Rightarrow> Some m | None \<Rightarrow> scr_first s) = Some m"
      by (cases "scr_current s") (auto simp: usable_def)
    define m' where "m' = (if ires < length res
        then m\<lparr>dmPelsWidth := res_w (res ! ires), dmPelsHeight := res_h (res ! ires),
               dmPosX := sx, dmPosY := 0\<rparr>
        else m\<lparr>dmPelsWidth := 0, dmPelsHeight := 0\<rparr>)"
    define s' where "s' = s\<lparr>scr_current := Some m'\<rparr>"
    define sx' where "sx' = (if ires < length res then sx + dmPelsWidth m' else sx)"
    from Cons.prems m obtain acts' where
      rec: "multi_loop d res ss (length (pre @ [s'])) (Suc ires) sx' (if cds_ret d ires = 0 then ok else False)
          = (i', ok', acts')" and acts: "acts = ChangeScreen (length pre) m' # acts'"
      unfolding m'_def sx'_def by (simp add: Let_def split: prod.splits if_split_asm)
    from Cons.IH [OF rec] obtain ss' where
      ss': "foldl apply_change ((pre @ [s']) @ ss) acts' = (pre @ [s']) @ ss'"
        "map place (active_modes ss') = wanted sx' (take (length (filter usable ss)) (drop (Suc ires) res))"
      by blast
    have "map place (active_modes (s' # ss')) =
        wanted sx (take (length (filter usable (s # ss))) (drop ires res))"
    proof (cases "ires < length res")
      case ires: True
      then have "drop ires res = res ! ires # drop (Suc ires) res" by (rule Cons_nth_drop_Suc [symmetric])
      with ires True ss'(2) assms(2) show ?thesis by (simp add: s'_def m'_def sx'_def place_def)
    next
      case False
      with True ss'(2) show ?thesis by (simp add: s'_def m'_def sx'_def)
    qed
    with ss'(1) acts show ?thesis
      by (intro exI [of _ "s' # ss'"]) (simp add: s'_def nth_append list_update_append)
  qed
qed

text \<open>
  C20: the two sides agree on the layout. When \<open>setResWinMulti\<close> reports success and the system
  carries out the changes it requested, the next \<open>isResolutionFine\<close> finds everything in place,
  whatever the screens looked like before.
\<close>

theorem setResWinMulti_makes_fine:
  assumes "setResWinMulti d res = (0, acts)" and "list_all res_valid res"
    and "- 1 \<notin> set (res_offsets 0 res)"
  shows "isResolutionFine (d\<lparr>screens := foldl apply_change (screens d) acts\<rparr>) res = 0"
proof -
  obtain i ok as where loop: "multi_loop d res (screens d) 0 0 0 True = (i, ok, as)"
    by (metis prod_cases3)
  have res0: "\<forall>r \<in> set res. res_w r \<noteq> 0"
    using assms(2) by (auto simp: list_all_iff res_valid_def)
  from assms(1) loop have edd: "has_edd d" and "length res \<le> i" and acts: "acts = as @ [ApplyScreens]"
    by (auto simp: setResWinMulti_def res_codes split: if_splits)
  moreover have "i = length (filter usable (screens d))" using multi_loop_count [OF loop] by simp
  ultimately have "wanted 0 (take (length (filter usable (screens d))) res) = wanted 0 res" by simp
  with multi_loop_layout [of d res "screens d" "[]" 0 0 True i ok as] loop res0 acts
  have layout: "map place (active_modes (foldl apply_change (screens d) acts)) = wanted 0 res" by auto
  have fst_wanted: "map fst (wanted x rs) = res_offsets x rs" for x rs
    by (induction rs arbitrary: x) auto
  have "dmPosX m \<in> set (res_offsets 0 res)"
    if "m \<in> set (active_modes (foldl apply_change (screens d) acts))" for m
  proof -
    from that have "place m \<in> set (wanted 0 res)" using layout by (metis image_eqI list.set_map)
    then have "fst (place m) \<in> set (map fst (wanted 0 res))" by (simp del: fst_conv)
    then show ?thesis unfolding fst_wanted by (simp add: place_def)
  qed
  then have "\<forall>m \<in> set (active_modes (foldl apply_change (screens d) acts)). dmPosX m \<noteq> - 1"
    using assms(3) by metis
  with edd assms(3) layout show ?thesis by (subst isResolutionFine_iff) simp_all
qed

theorem setResWinMulti_makes_fine_witness:
  "isResolutionFine (example_display\<lparr>screens := foldl apply_change (screens example_display)
      (snd (setResWinMulti example_display [\<lparr>res_w = 640, res_h = 480\<rparr>]))\<rparr>)
    [\<lparr>res_w = 640, res_h = 480\<rparr>] = 0"
  by (rule setResWinMulti_makes_fine)
     (simp_all add: setResWinMulti_def example_display_def example_mode_def res_valid_def)

subsection \<open>The counter of attempts\<close>

lemma set_wanted_callCount:
  "set_wanted cfg d st = (r, st', acts) \<Longrightarrow> rs_callCount st' = rs_callCount st"
  by (auto simp: set_wanted_def Let_def split: if_splits prod.splits)

lemma setResolution_callCount:
  assumes "setResolution cfg d st = Some (r, st', acts)" and "r \<noteq> 0"
  shows "rs_callCount st' = rs_callCount st + 1 \<and> rs_callCount st < 10"
  using assms set_wanted_callCount
  by (fastforce simp: setResolution_def Let_def split: if_splits option.splits prod.splits)

text \<open>One tick of the timer per display; the result lists the timers stopped by each tick.\<close>

fun tmr_run :: "res_settings \<Rightarrow> nat \<Rightarrow> display list \<Rightarrow> res_state \<times> nat \<Rightarrow> nat list list option" where
  "tmr_run cfg i [] s = Some []"
| "tmr_run cfg i (d # ds) s =
     (case tmrResolution cfg d i s of
        None \<Rightarrow> None
      | Some (s', killed, acts) \<Rightarrow> map_option ((#) killed) (tmr_run cfg i ds s'))"

lemma tmr_run_bounded:
  assumes "tmr_run cfg i ds (st, i) = Some ks" and "int (length ds) + rs_callCount st \<ge> 11"
    and "rs_callCount st < 11"
  shows "\<exists>k \<in> set ks. i \<in> set k"
  using assms
proof (induction ds arbitrary: st ks)
  case Nil
  then show ?case by simp
next
  case (Cons d ds)
  from Cons.prems(1) obtain r st' acts where
    set: "setResolution cfg d st = Some (r, st', acts)"
    by (auto simp: tmrResolution_def split: option.splits)
  show ?case
  proof (cases "r = 0")
    case True
    with Cons.prems(1) set show ?thesis
      by (auto simp: tmrResolution_def split: option.splits)
  next
    case False
    with Cons.prems(1) set obtain ks' where ks: "tmr_run cfg i ds (st', i) = Some ks'" "ks = [] # ks'"
      by (auto simp: tmrResolution_def split: option.splits)
    have "rs_callCount st' = rs_callCount st + 1" "rs_callCount st < 10"
      using setResolution_callCount [OF set False] by simp_all
    with Cons.IH [OF ks(1)] Cons.prems(2,3) ks(2) show ?thesis by simp
  qed
qed

text \<open>
  C21: the resolution timer always stops. Whatever the settings are and however the display
  system answers, one of the first twelve ticks stops the timer.
\<close>

theorem tmrResolution_stops:
  assumes "tmr_run cfg i ds (res_init, i) = Some ks" and "12 \<le> length ds"
  shows "\<exists>k \<in> set ks. i \<in> set k"
  by (rule tmr_run_bounded [OF assms(1)]) (use assms(2) in \<open>simp_all add: res_init_def\<close>)

definition example_settings :: res_settings where
  "example_settings =
     \<lparr>preferPhysicalScreen = False, ini_resolution2 = [], ini_resolution = show_resolutions [(640, 480)],
      programsPath = []\<rparr>"

lemma setResolution_returns: "\<not> preferPhysicalScreen cfg \<Longrightarrow> setResolution cfg d st \<noteq> None"
  by (cases "set_wanted cfg d (st\<lparr>rs_callCount := rs_callCount st + 1\<rparr>)")
     (simp add: setResolution_def Let_def)

lemma tmr_run_returns: "\<not> preferPhysicalScreen cfg \<Longrightarrow> \<exists>ks. tmr_run cfg i ds s = Some ks"
proof (induction ds arbitrary: s)
  case (Cons d ds)
  then show ?case
    using setResolution_returns [of cfg d "fst s"]
    by (cases s) (auto simp: tmrResolution_def split: option.splits prod.splits)
qed simp

theorem tmrResolution_stops_witness:
  "\<exists>ks. tmr_run example_settings 7 (replicate 12 example_display) (res_init, 7) = Some ks \<and>
        (\<exists>k \<in> set ks. 7 \<in> set k)"
proof -
  have "\<not> preferPhysicalScreen example_settings" by (simp add: example_settings_def)
  then obtain ks where
    "tmr_run example_settings 7 (replicate 12 example_display) (res_init, 7) = Some ks"
    using tmr_run_returns by blast
  with tmrResolution_stops [OF this] show ?thesis by simp
qed

text \<open>The state after a number of calls, with the screens of each call; \<open>None\<close> is undefined behaviour.\<close>

fun res_run :: "res_settings \<Rightarrow> display list \<Rightarrow> res_state \<Rightarrow> res_state option" where
  "res_run cfg [] st = Some st"
| "res_run cfg (d # ds) st =
     (case setResolution cfg d st of None \<Rightarrow> None | Some (r, st', acts) \<Rightarrow> res_run cfg ds st')"

text \<open>
  The setting asks for physical screens, and the call finds one: only then the counter is reset.
\<close>

definition switches_screens :: "res_settings \<Rightarrow> display \<Rightarrow> bool" where
  "switches_screens cfg d \<longleftrightarrow> preferPhysicalScreen cfg \<and>
     (\<exists>acts. setResModern d = Some (0, acts))"

lemma setResModern_codes: "setResModern d = Some (ret, acts) \<Longrightarrow> ret = 0 \<or> ret = W_ENOTSUP"
  by (auto simp: setResModern_def split: if_splits option.splits)

lemma setResolution_counts:
  assumes "\<not> switches_screens cfg d" and "setResolution cfg d st = Some (r, st', acts)"
  shows "rs_callCount st' = rs_callCount st + 1"
proof -
  let ?st = "st\<lparr>rs_callCount := rs_callCount st + 1\<rparr>"
  have "ret = W_ENOTSUP" if "preferPhysicalScreen cfg" "setResModern d = Some (ret, a)" for ret a
    using assms(1) that setResModern_codes by (force simp: switches_screens_def)
  then show ?thesis
    using assms(2) set_wanted_callCount [of cfg d ?st]
    by (fastforce simp: setResolution_def Let_def split: if_splits option.splits prod.splits)
qed

lemma res_run_counts:
  "list_all (\<lambda>d. \<not> switches_screens cfg d) ds \<Longrightarrow> res_run cfg ds st = Some st' \<Longrightarrow>
     rs_callCount st' = rs_callCount st + int (length ds)"
  by (induction cfg ds st rule: res_run.induct)
     (auto dest: setResolution_counts split: option.splits)

text \<open>
  C36: as long as no call has switched to physical screens (because the setting does not ask for
  them, or because the system reports none that can be used), the counter of attempts is never reset. So the
  agent sets the resolution in its first eleven calls only: after eleven such calls, successful
  or not, a call makes no request to the display system, whatever screens are there by then.
\<close>

theorem setResolution_dead_after_11:
  assumes "list_all (\<lambda>d. \<not> switches_screens cfg d) ds" and "res_run cfg ds res_init = Some st"
    and "11 \<le> length ds"
  shows "setResolution cfg d st = Some (0, st\<lparr>rs_callCount := rs_callCount st + 1\<rparr>, [])"
  using res_run_counts [OF assms(1,2)] assms(3)
  by (simp add: setResolution_def Let_def res_init_def)

lemma res_run_returns: "\<not> preferPhysicalScreen cfg \<Longrightarrow> \<exists>st'. res_run cfg ds st = Some st'"
proof (induction ds arbitrary: st)
  case (Cons d ds)
  then show ?case using setResolution_returns [of cfg d st] by (auto split: option.splits)
qed simp

theorem setResolution_dead_after_11_witness:
  "\<exists>st. res_run (example_settings\<lparr>preferPhysicalScreen := True\<rparr>) (replicate 11 example_display) res_init = Some st \<and>
        setResolution (example_settings\<lparr>preferPhysicalScreen := True\<rparr>) example_display st
          = Some (0, st\<lparr>rs_callCount := rs_callCount st + 1\<rparr>, [])"
proof -
  let ?cfg = "example_settings\<lparr>preferPhysicalScreen := True\<rparr>"
  have modern: "setResModern example_display = Some (W_ENOTSUP, [])"
    by (simp add: setResModern_def example_display_def)
  then have "list_all (\<lambda>d. \<not> switches_screens ?cfg d) (replicate 11 example_display)"
    by (simp add: switches_screens_def list_all_iff res_codes)
  moreover have "setResolution ?cfg example_display st \<noteq> None" for st
    by (cases "set_wanted ?cfg example_display (st\<lparr>rs_callCount := rs_callCount st + 1\<rparr>)")
       (simp add: setResolution_def modern Let_def)
  then have "\<exists>st'. res_run ?cfg (replicate n example_display) st = Some st'" for n st
    by (induction n arbitrary: st) (auto split: option.split)
  then obtain st where run: "res_run ?cfg (replicate 11 example_display) res_init = Some st" by blast
  ultimately show ?thesis using setResolution_dead_after_11 [of ?cfg _ st] by (metis length_replicate order_refl)
qed

subsection \<open>Physical screens\<close>

text \<open>
  What the switch is to choose: of the available paths to real adapters the first one for every target,
  in the order of the query; each is made active and gets an entry of its own behind the modes of
  the query, which names the source of the path.
\<close>

definition wanted_path :: "display \<Rightarrow> dc_path \<Rightarrow> bool" where
  "wanted_path d p \<longleftrightarrow> is_real d p \<and> targetAvailable p"

function first_per_target :: "dc_path list \<Rightarrow> dc_path list" where
  "first_per_target [] = []"
| "first_per_target (p # ps) =
     p # first_per_target (filter (\<lambda>q. \<not> (targetId q = targetId p \<and> targetAdapter q = targetAdapter p)) ps)"
  by pat_completeness auto
termination
  by (relation "measure length") (auto intro: le_less_trans [OF length_filter_le])

definition chosen_paths :: "display \<Rightarrow> dc_path list \<Rightarrow> dc_path list" where
  "chosen_paths d ps = first_per_target (filter (wanted_path d) ps)"

fun numbered :: "nat \<Rightarrow> dc_path list \<Rightarrow> dc_path list" where
  "numbered n [] = []"
| "numbered n (p # ps) = p\<lparr>pathActive := True, modeInfoIdx := n\<rparr> # numbered (Suc n) ps"

definition source_mode :: "dc_path \<Rightarrow> dc_mode" where
  "source_mode p = \<lparr>modeAdapter = sourceAdapter p, modeId = sourceId p\<rparr>"

lemma same_target_update [simp]:
  "same_target q (p\<lparr>pathActive := a, modeInfoIdx := i\<rparr>) = same_target q p"
  by (simp add: same_target_def)

lemma modern_loop_chosen:
  "modern_loop d ps new modes =
     (let cs = first_per_target (filter (\<lambda>p. wanted_path d p \<and> \<not> list_ex (same_target p) new) ps)
      in if cs \<noteq> [] \<and> DC_MAX < length modes + length cs then None
         else Some (new @ numbered (length modes) cs, modes @ map source_mode cs))"
proof (induction d ps new modes rule: modern_loop.induct)
  case (2 d p ps new modes)
  let ?new = "new @ [p\<lparr>pathActive := True, modeInfoIdx := length modes\<rparr>]"
  have split: "filter (\<lambda>q. wanted_path d q \<and> \<not> list_ex (same_target q) ?new) ps
      = filter (\<lambda>q. \<not> (targetId q = targetId p \<and> targetAdapter q = targetAdapter p))
          (filter (\<lambda>q. wanted_path d q \<and> \<not> list_ex (same_target q) new) ps)"
    by (auto simp: same_target_def intro: filter_cong)
  show ?case
  proof (cases "wanted_path d p \<and> \<not> list_ex (same_target p) new")
    case True
    then have "modern_loop d (p # ps) new modes =
        (if DC_MAX \<le> length modes then None
         else modern_loop d ps ?new (modes @ [source_mode p]))"
      by (simp add: wanted_path_def source_mode_def)
    with True 2 split show ?thesis by (auto simp: wanted_path_def source_mode_def Let_def)
  next
    case False
    with 2 show ?thesis by (auto simp: wanted_path_def)
  qed
qed simp

lemma first_per_target_Nil [simp]: "first_per_target ps = [] \<longleftrightarrow> ps = []"
  by (cases ps) auto

text \<open>
  C22: the switch to physical screens, when the calls it needs exist and the query succeeds. Without
  an available path to a real adapter it fails and asks for nothing. Otherwise it asks for exactly
  one configuration: the first available path to each target of a real adapter, in the order of the
  query, with one new mode entry each behind the modes of the query; it first asks to save this
  configuration and, if that call fails, asks for it once more without saving. If the new entries do
  not fit into the 400 entries of the mode array, it writes behind the array (\<open>None\<close>).
\<close>

theorem setResModern_selects_real:
  assumes "hUser32 d" "has_qdc d" "has_sdc d" and "qdc_ret d = Some (paths, modes)"
    and "cs = chosen_paths d paths"
  shows "setResModern d =
    (if cs = [] then Some (W_ENOTSUP, [])
     else if 400 < length modes + length cs then None
     else Some (0, SetDisplayConfig (numbered (length modes) cs) (modes @ map source_mode cs) True
                   # (if sdc_ret d True = 0 then []
                      else [SetDisplayConfig (numbered (length modes) cs) (modes @ map source_mode cs) False])))"
proof -
  have "modern_loop d paths [] modes =
      (if cs \<noteq> [] \<and> 400 < length modes + length cs then None
       else Some (numbered (length modes) cs, modes @ map source_mode cs))"
    by (simp add: modern_loop_chosen assms(5) chosen_paths_def DC_MAX_def Let_def)
  moreover have "numbered n cs = [] \<longleftrightarrow> cs = []" for n by (cases cs) simp_all
  ultimately show ?thesis using assms(1-4) by (auto simp: setResModern_def)
qed

definition physical_display :: display where
  "physical_display = example_display\<lparr>has_qdc := True, has_sdc := True,
     qdc_ret := Some ([\<lparr>targetId = 1, targetAdapter = 5, targetAvailable = True, sourceId = 0,
                        sourceAdapter = 5, modeInfoIdx = 0, pathActive = False\<rparr>,
                       \<lparr>targetId = 1, targetAdapter = 5, targetAvailable = True, sourceId = 1,
                        sourceAdapter = 5, modeInfoIdx = 0, pathActive = False\<rparr>], []),
     adapter_name := (\<lambda>_. Some (wtext ''PCI#VEN_8086'')), sdc_ret := (\<lambda>_. 0)\<rparr>"

theorem setResModern_selects_real_witness:
  "setResModern physical_display =
     Some (0, [SetDisplayConfig [\<lparr>targetId = 1, targetAdapter = 5, targetAvailable = True, sourceId = 0,
                 sourceAdapter = 5, modeInfoIdx = 0, pathActive = True\<rparr>]
                 [\<lparr>modeAdapter = 5, modeId = 0\<rparr>] True])"
proof -
  obtain paths where paths: "qdc_ret physical_display = Some (paths, [])"
      "chosen_paths physical_display paths = [\<lparr>targetId = 1, targetAdapter = 5, targetAvailable = True, sourceId = 0,
                        sourceAdapter = 5, modeInfoIdx = 0, pathActive = False\<rparr>]"
    by (simp add: physical_display_def chosen_paths_def wanted_path_def is_real_def wtext_def)
  have "hUser32 physical_display" "has_qdc physical_display" "has_sdc physical_display" "sdc_ret physical_display True = 0"
    by (simp_all add: physical_display_def example_display_def)
  with setResModern_selects_real [OF this(1-3) paths(1) refl] show ?thesis
    by (simp add: paths(2) source_mode_def)
qed

end
