(* ===== verification/WinresMount.thy ===== *)
theory WinresMount
  imports GuestCreds WinresRes
begin

section \<open>Network drives in the guest (run-virt/winres/src/winres.c)\<close>

text \<open>
  The mounting of the drives of the share file (\<open>mount\<close>, \<open>mountNetworkShare\<close>,
  \<open>mountNetworkShares\<close>), what follows a successful mount (\<open>postSuccessfulMount\<close>: shortcut, printer,
  the home directory's folders in the registry by \<open>patchUserPaths\<close>), and the fallback to the shared
  folder of the hypervisor (\<open>remapViaSharedFolder\<close>).

  Every call that changes the guest is recorded in \<open>ms_log\<close>, in order. The answers of Windows are
  arguments that may depend on everything logged so far. \<open>me_stale\<close> stands for the content of a
  buffer the source uses without having filled it.
\<close>

subsection \<open>Environment and state\<close>

datatype m_action =
    Connect wstring wstring bool wstring wstring
  | DeleteLink wstring
  | Shortcut wstring wstring wstring wstring nat wstring
  | PrinterAdd wstring
  | PrinterDefault wstring
  | CreateDirectory wstring
  | RegSet wstring wstring
  | TerminateExplorer

record remap_flags =
  rm_documents :: bool
  rm_downloads :: bool
  rm_desktop :: bool
  rm_media :: bool
  rm_other :: bool

record mount_env =
  me_utf8 :: "string \<Rightarrow> wstring option"
  me_left :: "string \<Rightarrow> wstring"
  me_wnet :: "m_action list \<Rightarrow> wstring \<Rightarrow> wstring \<Rightarrow> bool \<Rightarrow> wstring \<Rightarrow> wstring \<Rightarrow> nat"
  me_universal :: "m_action list \<Rightarrow> wchar \<Rightarrow> wstring option"
  me_folder :: "m_action list \<Rightarrow> wstring \<Rightarrow> bool"
  me_regopen :: bool
  me_regquery :: "m_action list \<Rightarrow> wstring \<Rightarrow> wstring option"
  me_regset :: "m_action list \<Rightarrow> wstring \<Rightarrow> wstring \<Rightarrow> bool"
  me_stale :: wstring
  me_persistent :: bool
  me_createMissing :: bool
  me_remapMode :: int
  me_homeDrive :: string
  me_remap :: remap_flags
  me_major :: int
  me_minor :: int
  me_toolhelp :: bool
  me_processes :: "(wstring \<times> bool) list option"
  me_desktop :: wstring
  me_windows :: wstring
  me_shelllink :: bool
  me_persistfile :: bool

text \<open>\<open>_folderStatus\<close>, and the static variables of \<open>mount\<close>, \<open>mountNetworkShares\<close> and \<open>remapViaSharedFolder\<close>.\<close>

record mount_state =
  ms_log :: "m_action list"
  ms_nuser :: wstring
  ms_npass :: wstring
  ms_attemptNo :: int
  ms_once :: bool
  ms_folderStatus :: int

definition FS_UNKNOWN :: int where "FS_UNKNOWN = - 1"
definition FS_ERROR :: int where "FS_ERROR = 0"
definition FS_OK :: int where "FS_OK = 1"
definition RM_NONE :: int where "RM_NONE = 0"
definition RM_NATIVE :: int where "RM_NATIVE = 1"
definition RM_NATIVE_FALLBACK :: int where "RM_NATIVE_FALLBACK = 2"
definition RM_VMWARE :: int where "RM_VMWARE = 3"

lemmas mount_consts = FS_UNKNOWN_def FS_ERROR_def FS_OK_def RM_NONE_def RM_NATIVE_def
  RM_NATIVE_FALLBACK_def RM_VMWARE_def

definition mount_init :: mount_state where
  "mount_init = \<lparr>ms_log = [], ms_nuser = [], ms_npass = [], ms_attemptNo = 0, ms_once = False,
                 ms_folderStatus = FS_UNKNOWN\<rparr>"

definition logged :: "m_action \<Rightarrow> mount_state \<Rightarrow> mount_state" where
  "logged a m = m\<lparr>ms_log := ms_log m @ [a]\<rparr>"

definition wide :: "mount_env \<Rightarrow> nat \<Rightarrow> string \<Rightarrow> wstring option" where
  "wide env n s = (case me_utf8 env s of None \<Rightarrow> None | Some w \<Rightarrow> if length w < n then Some w else None)"

definition MBUFLEN :: nat where
  "MBUFLEN = 200"

subsection \<open>One connection\<close>

text \<open>
  The error codes of the connection call that make \<open>mount\<close> fall back to the user's own credentials:
  invalid password 86, logon failure 1326, bad user name 2202, access denied 5, credential conflict
  1219, bad net name 67, not authenticated 1244, not logged on 1245.
\<close>

definition cred_errors :: "nat list" where
  "cred_errors = [86, 1326, 2202, 5, 1219, 67, 1244, 1245]"

definition connect ::
  "mount_env \<Rightarrow> wstring \<Rightarrow> wstring \<Rightarrow> bool \<Rightarrow> wstring \<Rightarrow> wstring \<Rightarrow> mount_state \<Rightarrow> nat \<times> mount_state" where
  "connect env letter path printer pass user m =
     (me_wnet env (ms_log m) letter path printer pass user,
      logged (Connect letter path printer pass user) m)"

text \<open>
  One of the static buffers, which is empty before: whether the conversion succeeds, and the text in
  the buffer afterwards. What a failed conversion leaves in it is up to the system (\<open>me_left\<close>).
\<close>

definition cache_field :: "mount_env \<Rightarrow> string option \<Rightarrow> bool \<times> wstring" where
  "cache_field env f =
     (case f of
        None \<Rightarrow> (True, [])
      | Some s \<Rightarrow> (case wide env MBUFLEN s of None \<Rightarrow> (False, me_left env s) | Some w \<Rightarrow> (True, w)))"

definition fill_cache :: "mount_env \<Rightarrow> creds \<Rightarrow> mount_state \<Rightarrow> bool \<times> mount_state" where
  "fill_cache env g m =
     (if ms_nuser m = [] \<and> ms_npass m = [] then
        (let (ok1, u) = cache_field env (suser g); (ok2, p) = cache_field env (spass g)
         in (ok1 \<and> ok2, m\<lparr>ms_nuser := u, ms_npass := p\<rparr>))
      else (True, m))"

definition mount ::
  "mount_env \<Rightarrow> creds \<Rightarrow> wstring \<Rightarrow> wstring \<Rightarrow> bool \<Rightarrow> wstring \<Rightarrow> wstring \<Rightarrow> mount_state
     \<Rightarrow> nat \<times> mount_state" where
  "mount env g letter path printer pass user m =
     (let (r1, m1) = (if pass \<noteq> [] \<or> user \<noteq> [] then connect env letter path printer pass user m
                      else (86, m))
      in if r1 \<notin> set cred_errors then (r1, m1)
         else case fill_cache env g m1 of (ok, m2) \<Rightarrow>
           if \<not> ok then (87, m2)
           else connect env letter path printer (ms_npass m2) (ms_nuser m2) m2)"

subsection \<open>The folders of the home directory\<close>

text \<open>\<open>_wcslwr\<close> and \<open>towlower\<close> in the C locale.\<close>

definition wlower :: "wchar \<Rightarrow> wchar" where
  "wlower c = (if 0x41 \<le> c \<and> c \<le> 0x5a then c + 0x20 else c)"

definition wslash :: wstring where
  "wslash = [0x5c]"

fun first_existing :: "mount_env \<Rightarrow> m_action list \<Rightarrow> wstring list \<Rightarrow> wstring option" where
  "first_existing env lg [] = None"
| "first_existing env lg (p # ps) = (if me_folder env lg p then Some p else first_existing env lg ps)"

text \<open>
  One registry value. The state of a patch run is the pair of flags \<open>patchOk\<close> and \<open>anyMapped\<close> with
  the log.
\<close>

definition patchRegPath ::
  "mount_env \<Rightarrow> wstring \<Rightarrow> wstring \<times> wstring list \<Rightarrow> bool \<times> bool \<times> mount_state \<Rightarrow> bool \<times> bool \<times> mount_state" where
  "patchRegPath env letter entry st =
     (case (entry, st) of ((vname, folders), (patchOk, anyMapped, m)) \<Rightarrow>
        if me_persistent env then st
        else let old = me_regquery env (ms_log m) vname
        in if (case old of None \<Rightarrow> False
               | Some v \<Rightarrow> map wlower (take 1 v) = map wlower (take 1 letter) \<and> me_folder env (ms_log m) v)
           then st
           else let paths = map (\<lambda>f. take (MAX_PATH - 1) (letter @ wslash @ f)) folders;
                    found = first_existing env (ms_log m) paths
           in if found = None \<and> \<not> me_createMissing env then st
              else let folder = (case found of Some p \<Rightarrow> p | None \<Rightarrow> hd paths);
                       m1 = (if found = None then logged (CreateDirectory folder) m else m);
                       target = map wlower folder;
                       oldvalue = map wlower (case old of None \<Rightarrow> me_stale env | Some v \<Rightarrow> v)
              in if target = oldvalue then (patchOk, anyMapped, m1)
                 else if me_regset env (ms_log m1) vname target
                 then (patchOk, True, logged (RegSet vname target) m1)
                 else (False, anyMapped, m1))"

text \<open>The registry values \<open>patchUserPaths\<close> goes through, in its order.\<close>

definition patch_table :: "remap_flags \<Rightarrow> bool \<Rightarrow> (wstring \<times> wstring list) list" where
  "patch_table r win10 =
     (let e = (\<lambda>v fs. (wtext v, map wtext fs));
          video = [''Videos'', ''My Videos'', ''Eigene Videos''];
          pics = [''Pictures'', ''My Pictures'', ''Eigene Bilder'', ''Bilder''];
          music = [''Music'', ''My Music'', ''Eigene Musik'', ''Musik''];
          down = [''Downloads'', ''Profile'' @ [CHR 0x5C] @ ''Downloads''];
          docs = [''Documents'', ''Dokumente'', ''My Documents'', ''Eigene Dateien''];
          desk = map wtext [''Windows Desktop'', ''Desktop'']
                   @ [wtext ''Arbeitsfl'' @ [0xE4] @ wtext ''che'']
      in (if rm_other r then
            [e ''{56784854-C6CB-462B-8169-88E350ACB882}''
               [''Contacts'', ''Profile'' @ [CHR 0x5C] @ ''Contacts'', ''Kontakte''],
             e ''Favorites'' [''Favorites'', ''Profile'' @ [CHR 0x5C] @ ''Favorites'', ''Favoriten''],
             e ''{7D1D3A04-DEBB-4115-95CF-2F29DA2920DA}''
               [''Searches'', ''Profile'' @ [CHR 0x5C] @ ''Searches''],
             e ''{BFB9D5E0-C6A9-404C-B2B2-AE6DB6AF4968}'' [''Links'', ''Profile'' @ [CHR 0x5C] @ ''Links''],
             e ''{4C5C32FF-BB9D-43B0-B5B4-2D72E54EAAA4}''
               [''Saved Games'', ''SavedGames'', ''Profile'' @ [CHR 0x5C] @ ''SavedGames'']] else []) @
         (if rm_media r then
            [e ''My Video'' video, e ''My Pictures'' pics, e ''My Music'' music] @
            (if win10 then
               [e ''{35286a68-3c57-41a1-bbb1-0eae73d76c95}'' video,
                e ''{0ddd015d-b06c-45d5-8c4c-f59713854639}'' pics,
                e ''{a0c69a99-21c8-4671-8703-7934162fcf1d}'' music] else []) else []) @
         (if rm_downloads r then
            [e ''{374DE290-123F-4565-9164-39C4925E467B}'' down] @
            (if win10 then [e ''{7d83ee9b-2244-4e70-b1f5-5393042af1e4}'' down] else []) else []) @
         (if rm_documents r then
            [e ''Personal'' docs] @
            (if win10 then [e ''{f42ee2d3-909f-4907-8871-4c22fc0bf756}'' docs] else []) else []) @
         (if rm_desktop r then
            [(wtext ''Desktop'', desk)] @
            (if win10 then [(wtext ''{B4BFCC3A-DB2C-424C-B029-7FE99A87C641}'', desk)] else []) else []))"

text \<open>Ending every explorer process; the flag says whether one was ended.\<close>

fun kill_explorer :: "(wstring \<times> bool) list \<Rightarrow> mount_state \<Rightarrow> bool \<times> mount_state" where
  "kill_explorer [] m = (False, m)"
| "kill_explorer ((name, ok) # ps) m =
     (if map wlower name = wtext ''explorer.exe'' \<and> ok
      then (True, snd (kill_explorer ps (logged TerminateExplorer m)))
      else kill_explorer ps m)"

definition patchUserPaths :: "mount_env \<Rightarrow> wstring \<Rightarrow> mount_state \<Rightarrow> mount_state" where
  "patchUserPaths env letter m =
     (if me_persistent env then m
      else let m0 = m\<lparr>ms_folderStatus := FS_ERROR\<rparr>
      in if \<not> me_regopen env then m0
         else case foldl (\<lambda>st e. patchRegPath env letter e st) (True, False, m0)
                     (patch_table (me_remap env) (10 \<le> me_major env)) of
           (patchOk, anyMapped, m1) \<Rightarrow>
             if \<not> anyMapped then m1\<lparr>ms_folderStatus := FS_OK\<rparr>
             else if me_major env < 5 \<or> (me_major env = 5 \<and> me_minor env < 1) then m1
             else if \<not> me_toolhelp env then m1
             else (case me_processes env of
                     None \<Rightarrow> m1
                   | Some ps \<Rightarrow>
                       (case kill_explorer ps m1 of
                          (killOk, m2) \<Rightarrow>
                            if patchOk \<and> killOk then m2\<lparr>ms_folderStatus := FS_OK\<rparr> else m2)))"

subsection \<open>After a successful mount\<close>

text \<open>
  A saved link: program, arguments, description, icon file, icon number, and the link's file.
  \<open>me_shelllink\<close> and \<open>me_persistfile\<close> say whether the two COM interfaces can be had.
\<close>

definition createFolderShortcut ::
  "mount_env \<Rightarrow> wstring \<Rightarrow> wstring \<Rightarrow> wstring \<Rightarrow> mount_state \<Rightarrow> mount_state" where
  "createFolderShortcut env target link comment m =
     (if me_persistent env then m
      else if target \<noteq> [] \<and> link \<noteq> [] \<and> me_shelllink env \<and> me_persistfile env then
        (let explorer = take (MAX_PATH - 1) ([0x22] @ me_windows env @ wslash @ wtext ''explorer.exe'' @ [0x22]);
             sys = me_windows env @ wslash @ wtext ''system32'' @ wslash;
             (icon, num) = (if 6 \<le> me_major env
                            then (take (MAX_PATH - 1) (sys @ wtext ''imageres.dll''), 137)
                            else (take (MAX_PATH - 1) (sys @ wtext ''shell32.dll''), 85))
         in logged (Shortcut explorer target comment icon num link) m)
      else m)"

definition is_printer :: "netdrive \<Rightarrow> bool" where
  "is_printer d \<longleftrightarrow> nd_letter d = Some ''PRINTER''"

definition is_webdav :: "string \<Rightarrow> bool" where
  "is_webdav path \<longleftrightarrow>
     strstr path ''@SSL'' \<or> strstr path ''webdav'' \<or> strstr path ''WebDav'' \<or> strstr path ''WebDAV'' \<or>
     strstr path ''@ssl'' \<or> strncmp_eq path ''http'' 4"

definition homeDirA :: string where
  "homeDirA = [CHR 0x5C, CHR 0x5C] @ ''vmware-host'' @ [CHR 0x5C] @ ''Shared Folders'' @ [CHR 0x5C] @ ''home''"

definition homeDirW :: wstring where
  "homeDirW = wtext ([CHR 0x5C, CHR 0x5C] @ ''vmware-host'' @ [CHR 0x5C] @ ''shared folders'' @ [CHR 0x5C] @ ''home'')"

definition home_remap :: "mount_env \<Rightarrow> netdrive \<Rightarrow> mount_state \<Rightarrow> bool" where
  "home_remap env d m \<longleftrightarrow>
     ms_folderStatus m \<noteq> FS_OK \<and> strncmp_eq (the (nd_shortcut d)) ''Home-'' 5 \<and>
     (let isVmware = (nd_path d = Some homeDirA)
      in me_remapMode env = RM_NATIVE_FALLBACK \<or> (isVmware \<and> me_remapMode env = RM_VMWARE) \<or>
         (\<not> isVmware \<and> me_remapMode env = RM_NATIVE))"

text \<open>The parameters of \<open>rundll32\<close> for a printer, cut at the size of their buffer.\<close>

definition printer_cmd :: "string \<Rightarrow> wstring \<Rightarrow> wstring" where
  "printer_cmd opts path =
     take (MAX_PATH - 1) (wtext (''printui.dll PrintUIEntry '' @ opts) @ [0x22] @ path @ [0x22])"

definition postSuccessfulMount :: "mount_env \<Rightarrow> netdrive \<Rightarrow> wstring \<Rightarrow> mount_state \<Rightarrow> mount_state" where
  "postSuccessfulMount env d letter m =
     (let path = the (nd_path d);
          wUncPath = (case wide env MAX_PATH path of None \<Rightarrow> me_stale env | Some w \<Rightarrow> w);
          wShortcut = (case nd_shortcut d of None \<Rightarrow> []
                       | Some s \<Rightarrow> if s = [] then []
                                   else (case wide env MAX_PATH s of None \<Rightarrow> me_left env s | Some w \<Rightarrow> w));
          m1 = (if wShortcut \<noteq> [] \<and> \<not> is_printer d then
                  (let wLinkName = take (MAX_PATH - 1) (me_desktop env @ wslash @ wShortcut @ wtext ''.lnk'');
                       wTarget = take (MAX_PATH - 1) ([0x22] @ wUncPath @ [0x22]);
                       ma = logged (DeleteLink wLinkName) m;
                       mb = (if letter \<noteq> [] \<and> is_webdav path
                             then createFolderShortcut env letter wLinkName letter ma
                             else createFolderShortcut env wTarget wLinkName letter ma)
                   in if home_remap env d mb then patchUserPaths env letter mb else mb)
                else m)
      in if is_printer d then
           (let def = (wShortcut \<noteq> [] \<and> take 1 (the (nd_shortcut d)) = ''@'');
                mc = logged (PrinterAdd (printer_cmd ''/q /in /n '' wUncPath)) m1
            in if def then logged (PrinterDefault (printer_cmd ''/q /y /n '' wUncPath)) mc else mc)
         else m1)"

subsection \<open>Mounting a drive\<close>

text \<open>
  Error codes that mean the letter is taken: already assigned 85, already remembered 1202,
  connection unavailable 1201. After the codes of \<open>hopeless\<close> a drive is not tried again.
\<close>

definition letter_taken :: "nat \<Rightarrow> bool" where
  "letter_taken r \<longleftrightarrow> r = 85 \<or> r = 1202 \<or> r = 1201"

definition hopeless :: "nat \<Rightarrow> bool" where
  "hopeless r \<longleftrightarrow> r = 86 \<or> r = 1326 \<or> r = 2202 \<or> r = 5 \<or> r = 1219"

definition drive_letters :: "wchar list" where
  "drive_letters = map (\<lambda>i. 0x5A - word_of_nat i) [0..<23]"

fun find_letter ::
  "mount_env \<Rightarrow> creds \<Rightarrow> netdrive \<Rightarrow> wstring \<Rightarrow> wstring \<Rightarrow> wstring \<Rightarrow> wchar list \<Rightarrow> mount_state
     \<Rightarrow> bool \<times> mount_state" where
  "find_letter env g d path pass user [] m = (False, m)"
| "find_letter env g d path pass user (l # ls) m =
     (case mount env g [l, 0x3A] path False pass user m of (r, m') \<Rightarrow>
        if letter_taken r then find_letter env g d path pass user ls m'
        else if r = 0 then (True, postSuccessfulMount env d [l, 0x3A] m')
        else (hopeless r, m'))"

text \<open>
  A field of a drive as a wide string: the empty string when it is missing, \<open>None\<close> when it cannot
  be converted.
\<close>

definition wide_field :: "mount_env \<Rightarrow> nat \<Rightarrow> string option \<Rightarrow> wstring option" where
  "wide_field env n f = (case f of None \<Rightarrow> Some [] | Some s \<Rightarrow> wide env n s)"

text \<open>The letter the source passes on: cleared for printers and for \<open>-\<close>, else cut to \<open>X:\<close>.\<close>

definition chosen_letter :: "wstring \<Rightarrow> wstring" where
  "chosen_letter letter =
     (if letter = wtext ''PRINTER'' \<or> hd letter = 0x2D then [] else [hd letter, 0x3A])"

definition mountNetworkShare ::
  "mount_env \<Rightarrow> creds \<Rightarrow> netdrive \<Rightarrow> bool \<Rightarrow> mount_state \<Rightarrow> bool \<times> mount_state" where
  "mountNetworkShare env g d useIp m =
     (if useIp \<and> (nd_pathIp d = None \<or> nd_pathIp d = Some []) then (False, m)
      else case (if useIp then nd_pathIp d else nd_path d) of
        None \<Rightarrow> (False, m)
      | Some uncPath \<Rightarrow>
          (case (wide env MBUFLEN uncPath, wide_field env 10 (nd_letter d),
                 wide_field env MBUFLEN (nd_user d), wide_field env MBUFLEN (nd_pass d),
                 wide_field env MBUFLEN (nd_shortcut d)) of
             (Some path, Some letter, Some user, Some pass, Some shortcut) \<Rightarrow>
               if path = [] then (True, m)
               else if letter \<noteq> [] \<and> hd letter \<noteq> 0x3F then
                 (let printer = (letter = wtext ''PRINTER'')
                  in case mount env g (chosen_letter letter) path printer pass user m of (r, m1) \<Rightarrow>
                    if r = 0 \<or> (printer \<and> r = 1219)
                    then (True, postSuccessfulMount env d (chosen_letter letter) m1)
                    else if \<not> letter_taken r then (False, m1)
                    else if \<not> printer then find_letter env g d path pass user drive_letters m1
                    else (False, m1))
               else find_letter env g d path pass user drive_letters m
           | _ \<Rightarrow> (True, m)))"

subsection \<open>Mounting all drives\<close>

fun strip_slashes :: "string \<Rightarrow> string" where
  "strip_slashes s =
     (if 1 < length s \<and> (last s = CHR ''/'' \<or> last s = CHR 0x5C) then strip_slashes (butlast s) else s)"

declare strip_slashes.simps [simp del]

text \<open>One drive that is not mounted yet: whether it succeeded, and its new entry.\<close>

definition mount_drive ::
  "mount_env \<Rightarrow> creds \<Rightarrow> int \<Rightarrow> netdrive \<Rightarrow> mount_state \<Rightarrow> bool \<times> netdrive \<times> mount_state" where
  "mount_drive env g attemptNo d m =
     (let d1 = (if attemptNo = 2 then d\<lparr>nd_path := map_option strip_slashes (nd_path d)\<rparr> else d)
      in if attemptNo \<le> 4 \<and> is_printer d1 then (False, d1, m)
         else case mountNetworkShare env g d1 False m of (ok1, m1) \<Rightarrow>
           if ok1 then (True, d1\<lparr>nd_success := True\<rparr>, m1)
           else case mountNetworkShare env g d1 True m1 of (ok2, m2) \<Rightarrow>
             if ok2 then (True, d1\<lparr>nd_success := True\<rparr>, m2) else (False, d1, m2))"

text \<open>The loop over the drive table; the first result is \<open>failCount\<close>.\<close>

fun mount_loop ::
  "mount_env \<Rightarrow> creds \<Rightarrow> int \<Rightarrow> netdrive list \<Rightarrow> mount_state \<Rightarrow> nat \<times> netdrive list \<times> mount_state" where
  "mount_loop env g attemptNo [] m = (0, [], m)"
| "mount_loop env g attemptNo (d # ds) m =
     (if nd_path d = None then (0, d # ds, m)
      else if nd_success d then
        (case mount_loop env g attemptNo ds m of (n, ds', m') \<Rightarrow> (n, d # ds', m'))
      else case mount_drive env g attemptNo d m of (ok, d', m1) \<Rightarrow>
        (case mount_loop env g attemptNo ds m1 of (n, ds', m') \<Rightarrow>
           (if ok then n else Suc n, d' # ds', m')))"

definition mountNetworkShares :: "mount_env \<Rightarrow> creds \<times> mount_state \<Rightarrow> bool \<times> creds \<times> mount_state" where
  "mountNetworkShares env s =
     (case s of (g, m) \<Rightarrow>
        if \<not> shareFileOk g then (True, g, m)
        else if spass g = None then (False, g, m)
        else let m0 = m\<lparr>ms_attemptNo := ms_attemptNo m + 1\<rparr>
        in case mount_loop env g (ms_attemptNo m0) (drives g) m0 of
             (n, ds, m1) \<Rightarrow> (n = 0, g\<lparr>drives := ds\<rparr>, m1))"

text \<open>The complete reception of a datagram.\<close>

definition udpReceived :: "mount_env \<Rightarrow> byte list option \<Rightarrow> creds \<times> mount_state \<Rightarrow> creds \<times> mount_state" where
  "udpReceived env ret s =
     (case s of (g, m) \<Rightarrow>
        (case udpReceived_pass ret g of
           (g1, got) \<Rightarrow> if got then snd (mountNetworkShares env (g1, m)) else (g1, m)))"

subsection \<open>The shared folder of the hypervisor\<close>

definition home_drive :: "mount_env \<Rightarrow> netdrive" where
  "home_drive env = \<lparr>nd_path = Some homeDirA, nd_pathIp = None, nd_letter = Some (me_homeDrive env),
     nd_shortcut = Some ''Home-Verzeichnis'', nd_user = Some [], nd_pass = Some [], nd_success = False\<rparr>"

definition remap_letters :: "wchar list" where
  "remap_letters = map (\<lambda>i. 0x44 + word_of_nat i) [0..<23]"

definition mapped_home :: "mount_env \<Rightarrow> mount_state \<Rightarrow> wchar \<Rightarrow> bool" where
  "mapped_home env m l \<longleftrightarrow>
     (case me_universal env (ms_log m) l of None \<Rightarrow> False | Some u \<Rightarrow> map wlower u = homeDirW)"

definition remapViaSharedFolder :: "mount_env \<Rightarrow> creds \<Rightarrow> mount_state \<Rightarrow> mount_state" where
  "remapViaSharedFolder env g m =
     (if ms_once m then m
      else let m0 = m\<lparr>ms_once := True\<rparr>
      in case List.find (mapped_home env m0) remap_letters of
           Some l \<Rightarrow> postSuccessfulMount env (home_drive env) [l, 0x3A] m0
         | None \<Rightarrow> snd (mountNetworkShare env g (home_drive env) False m0))"

subsection \<open>What an operation may do\<close>

text \<open>
  The calls an operation adds to the log all satisfy a policy. This is the interface between the
  operations and the safety properties: each operation states once what it may add.
\<close>

definition extends :: "(m_action \<Rightarrow> bool) \<Rightarrow> mount_state \<Rightarrow> mount_state \<Rightarrow> bool" where
  "extends P m m' \<longleftrightarrow> (\<exists>acts. ms_log m' = ms_log m @ acts \<and> list_all P acts)"

lemma extends_refl [simp]: "extends P m m"
  by (auto simp: extends_def)

lemma extends_trans: "extends P a b \<Longrightarrow> extends P b c \<Longrightarrow> extends P a c"
  by (auto simp: extends_def)

lemma extends_mono: "extends P a b \<Longrightarrow> (\<And>x. P x \<Longrightarrow> Q x) \<Longrightarrow> extends Q a b"
  by (auto simp: extends_def list_all_iff)

lemma extends_logged: "P a \<Longrightarrow> extends P m (logged a m)"
  by (auto simp: extends_def logged_def)

lemma extends_same_log: "ms_log m' = ms_log m \<Longrightarrow> extends P m m'"
  by (auto simp: extends_def)

lemma extends_log_left: "ms_log a = ms_log a' \<Longrightarrow> extends P a b = extends P a' b"
  by (simp add: extends_def)

lemma mount_extends:
  assumes "mount env g letter path printer pass user m = (r, m')"
    and "\<And>pw u. P (Connect letter path printer pw u)"
  shows "extends P m m'"
proof -
  have c: "connect env letter path printer pw u m = (r, m') \<Longrightarrow> extends P m m'" for pw u m r m'
    by (auto simp: connect_def extends_logged assms(2))
  have f: "fill_cache env g m = (ok, m') \<Longrightarrow> extends P m m'" for m ok m'
    by (rule extends_same_log) (auto simp: fill_cache_def Let_def split: if_splits prod.splits)
  show ?thesis
    using assms(1) unfolding mount_def Let_def
    by (auto split: if_splits prod.splits intro: extends_trans dest!: c f)
qed

text \<open>The ways through \<open>mountNetworkShare\<close>.\<close>

lemma mountNetworkShare_cases:
  obtains (none) b where "mountNetworkShare env g d useIp m = (b, m)"
  | (search) path pass user where
      "mountNetworkShare env g d useIp m = find_letter env g d path pass user drive_letters m"
      and "wide_field env MBUFLEN (nd_pass d) = Some pass"
  | (named) path letter pass user r m1 where
      "wide_field env 10 (nd_letter d) = Some letter" and "letter \<noteq> []"
      and "mount env g (chosen_letter letter) path (letter = wtext ''PRINTER'') pass user m = (r, m1)"
      and "mountNetworkShare env g d useIp m \<in>
        {(True, postSuccessfulMount env d (chosen_letter letter) m1), (False, m1),
         find_letter env g d path pass user drive_letters m1}"
      and "wide_field env MBUFLEN (nd_pass d) = Some pass"
proof (cases "if useIp then nd_pathIp d else nd_path d")
  case None
  then show ?thesis by (intro none [of False]) (simp add: mountNetworkShare_def)
next
  case (Some uncPath)
  show ?thesis
  proof (cases "(useIp \<and> nd_pathIp d = Some []) \<or> wide env MBUFLEN uncPath = None \<or>
      wide_field env 10 (nd_letter d) = None \<or> wide_field env MBUFLEN (nd_user d) = None \<or>
      wide_field env MBUFLEN (nd_pass d) = None \<or> wide_field env MBUFLEN (nd_shortcut d) = None")
    case True
    with Some show ?thesis
      by (intro none [of "\<not> (useIp \<and> nd_pathIp d = Some [])"])
         (auto simp: mountNetworkShare_def split: option.splits)
  next
    case False
    then obtain path letter user pass shortcut where fields: "wide env MBUFLEN uncPath = Some path"
        "wide_field env 10 (nd_letter d) = Some letter" "wide_field env MBUFLEN (nd_user d) = Some user"
        "wide_field env MBUFLEN (nd_pass d) = Some pass"
        "wide_field env MBUFLEN (nd_shortcut d) = Some shortcut" by auto
    obtain r m1 where mt: "mount env g (chosen_letter letter) path (letter = wtext ''PRINTER'') pass user m
        = (r, m1)" by fastforce
    have guard: "\<not> (useIp \<and> (nd_pathIp d = None \<or> nd_pathIp d = Some []))" using False Some by auto
    consider "path = []" | "path \<noteq> []" "letter \<noteq> []" "hd letter \<noteq> 0x3F"
      | "path \<noteq> []" "\<not> (letter \<noteq> [] \<and> hd letter \<noteq> 0x3F)" by blast
    then show ?thesis
    proof cases
      case 1
      with guard Some fields show ?thesis
        by (intro none [of True]) (simp add: mountNetworkShare_def)
    next
      case 2
      with guard Some fields mt show ?thesis
        by (intro named [OF fields(2) _ mt _ fields(4)]) (auto simp: mountNetworkShare_def Let_def)
    next
      case 3
      with guard Some fields show ?thesis
        by (intro search [of path pass user, OF _ fields(4)]) (auto simp: mountNetworkShare_def)
    qed
  qed
qed

fun is_change :: "m_action \<Rightarrow> bool" where
  "is_change (RegSet v t) = True"
| "is_change (CreateDirectory p) = True"
| "is_change (Shortcut p a c i n l) = True"
| "is_change TerminateExplorer = True"
| "is_change a = False"

fun is_printer_action :: "m_action \<Rightarrow> bool" where
  "is_printer_action (Connect l p printer pw u) = printer"
| "is_printer_action (PrinterAdd p) = True"
| "is_printer_action (PrinterDefault p) = True"
| "is_printer_action a = False"

fun is_connect :: "m_action \<Rightarrow> bool" where
  "is_connect (Connect l p printer pw u) = True"
| "is_connect a = False"

text \<open>
  A policy for the drive operations: \<open>conn\<close> are the connections allowed with a letter and a type;
  changes to the system are allowed unless the machine is persistent, the printer calls only for
  printers.
\<close>

locale mount_policy =
  fixes env :: mount_env
    and P :: "m_action \<Rightarrow> bool"
    and allow :: "netdrive \<Rightarrow> bool"
  assumes changes: "\<not> me_persistent env \<Longrightarrow> is_change a \<Longrightarrow> P a"
    and links: "P (DeleteLink l)"
    and conn_disk: "P (Connect l p False pw u)"
    and printers: "allow d \<Longrightarrow> is_printer d \<Longrightarrow> is_printer_action a \<Longrightarrow> P a"
    and conn_printer: "allow d \<Longrightarrow> nd_letter d = Some s \<Longrightarrow> me_utf8 env s = Some (wtext ''PRINTER'') \<Longrightarrow>
      P (Connect l p True pw u)"
begin

lemma kill_policy:
  "\<not> me_persistent env \<Longrightarrow> extends P m (snd (kill_explorer ps m))"
proof (induction ps m rule: kill_explorer.induct)
  case (2 name ok ps m)
  have "extends P m (logged TerminateExplorer m)"
    by (rule extends_logged) (simp add: changes 2)
  with 2 show ?case by (auto intro: extends_trans)
qed simp

lemma reg_policy:
  assumes "patchRegPath env letter e (po, am, m) = (po', am', m')"
  shows "extends P m m'"
proof -
  obtain v fs where e: "e = (v, fs)" by (cases e)
  have step: "\<not> me_persistent env \<Longrightarrow> extends P m (logged (RegSet v t) m)"
    "\<not> me_persistent env \<Longrightarrow> extends P m (logged (CreateDirectory p) m)" for m v t p
    by (auto intro!: extends_logged changes)
  show ?thesis
    using assms unfolding e patchRegPath_def Let_def
    by (auto split: if_splits option.splits intro: step extends_trans)
qed

lemma reg_fold_policy:
  "foldl (\<lambda>st e. patchRegPath env letter e st) (po, am, m) es = (po', am', m') \<Longrightarrow> extends P m m'"
proof (induction es arbitrary: po am m)
  case (Cons e es)
  obtain po1 am1 m1 where p: "patchRegPath env letter e (po, am, m) = (po1, am1, m1)"
    by (metis prod_cases3)
  with Cons.prems have "foldl (\<lambda>st e. patchRegPath env letter e st) (po1, am1, m1) es = (po', am', m')"
    by simp
  from Cons.IH [OF this] reg_policy [OF p] show ?case by (blast intro: extends_trans)
qed simp

lemma patchUserPaths_policy: "extends P m (patchUserPaths env letter m)"
proof (cases "me_persistent env \<or> \<not> me_regopen env")
  case True
  then show ?thesis by (auto simp: patchUserPaths_def extends_def)
next
  case False
  let ?m0 = "m\<lparr>ms_folderStatus := FS_ERROR\<rparr>"
  obtain po am m1 where fold: "foldl (\<lambda>st e. patchRegPath env letter e st) (True, False, ?m0)
      (patch_table (me_remap env) (10 \<le> me_major env)) = (po, am, m1)"
    by (metis prod_cases3)
  have m1: "extends P m m1"
    using reg_fold_policy [OF fold] extends_log_left [of ?m0 m] by simp
  have kill: "kill_explorer ps m1 = (k, m2) \<Longrightarrow> extends P m m2" for ps k m2
    using kill_policy [of m1 ps] False m1 by (auto intro: extends_trans)
  have status: "extends P m x \<Longrightarrow> extends P m (x\<lparr>ms_folderStatus := s\<rparr>)" for x s
    by (simp add: extends_def)
  show ?thesis
    using False m1 kill status unfolding patchUserPaths_def
    by (auto simp: fold split: option.splits prod.splits)
qed

lemma shortcut_policy: "extends P m (createFolderShortcut env t l c m)"
  by (auto simp: createFolderShortcut_def Let_def intro!: extends_logged changes)

lemma post_policy: "allow d \<Longrightarrow> extends P m (postSuccessfulMount env d letter m)"
proof -
  assume d: "allow d"
  have link: "extends P m (createFolderShortcut env t l c (logged (DeleteLink l') m))" for t l c l'
    using extends_trans [OF extends_logged [of P, OF links] shortcut_policy] .
  have home: "extends P m (patchUserPaths env x (createFolderShortcut env t l c (logged (DeleteLink l') m)))"
    for x t l c l' using extends_trans [OF link patchUserPaths_policy] .
  have add: "is_printer d \<Longrightarrow> extends P m (logged (PrinterAdd p) m)" for p
    by (rule extends_logged) (use printers [OF d] in simp)
  have default: "is_printer d \<Longrightarrow> extends P m (logged (PrinterDefault q) (logged (PrinterAdd p) m))" for p q
    by (rule extends_trans [OF add], assumption, rule extends_logged) (use printers [OF d] in simp)
  show ?thesis
    unfolding postSuccessfulMount_def Let_def
    by (cases "is_printer d") (auto intro: link home add default)
qed

lemma find_letter_policy:
  assumes "allow d"
  shows "extends P m (snd (find_letter env g d path pass user ls m))"
proof (induction ls arbitrary: m)
  case (Cons l ls)
  obtain r m' where mt: "mount env g [l, 0x3A] path False pass user m = (r, m')" by fastforce
  have "extends P m m'" by (rule mount_extends [OF mt]) (rule conn_disk)
  with mt Cons.IH [of m'] post_policy [OF assms] show ?case
    by (auto intro: extends_trans)
qed simp

lemma share_policy:
  assumes "allow d"
  shows "extends P m (snd (mountNetworkShare env g d useIp m))"
proof -
  have conn: "extends P m m1"
    if "mount env g l path (letter = wtext ''PRINTER'') pass user m = (r, m1)"
      and "wide_field env 10 (nd_letter d) = Some letter" and "letter \<noteq> []"
    for l path letter pass user r m1
  proof (rule mount_extends [OF that(1)])
    show "P (Connect l path (letter = wtext ''PRINTER'') pw u)" for pw u
      using that(2,3) conn_disk conn_printer [OF assms]
      by (cases "letter = wtext ''PRINTER''")
         (auto simp: wide_field_def wide_def split: option.splits if_splits)
  qed
  show ?thesis
  proof (cases rule: mountNetworkShare_cases [of env g d useIp m])
    case (named path letter pass user r m1)
    have m1: "extends P m m1" by (rule conn [OF named(3,1,2)])
    show ?thesis
      using named(4) m1 extends_trans [OF m1 post_policy [OF assms]]
        extends_trans [OF m1 find_letter_policy [OF assms]] by auto
  qed (simp_all add: find_letter_policy [OF assms])
qed

lemma drive_policy:
  assumes "allow d \<or> (attemptNo \<le> 4 \<and> is_printer d)" and "\<And>p. allow d \<Longrightarrow> allow (d\<lparr>nd_path := p\<rparr>)"
    and "mount_drive env g attemptNo d m = (ok, d', m')"
  shows "extends P m m'"
proof (cases "attemptNo \<le> 4 \<and> is_printer d")
  case True
  then have "attemptNo \<le> 4" "is_printer (d\<lparr>nd_path := p\<rparr>)" "is_printer d" for p
    by (simp_all add: is_printer_def)
  with assms(3) show ?thesis by (auto simp: mount_drive_def Let_def split: if_splits)
next
  case False
  define d1 where
    "d1 = (if attemptNo = 2 then d\<lparr>nd_path := map_option strip_slashes (nd_path d)\<rparr> else d)"
  have "allow d1" "is_printer d1 = is_printer d"
    using False assms(1,2) by (auto simp: d1_def is_printer_def)
  then have share: "mountNetworkShare env g d1 ip ma = (ok1, mb) \<Longrightarrow> extends P ma mb" for ip ma ok1 mb
    using share_policy [of d1 ma g ip] by simp
  obtain ok1 ma ok2 mb where runs: "mountNetworkShare env g d1 False m = (ok1, ma)"
      "mountNetworkShare env g d1 True ma = (ok2, mb)" by fastforce
  then have "extends P m ma" "extends P m mb" by (auto dest!: share intro: extends_trans)
  with runs assms(3) False \<open>is_printer d1 = is_printer d\<close> show ?thesis
    unfolding mount_drive_def Let_def d1_def [symmetric] by (auto split: if_splits)
qed

lemma loop_policy:
  assumes "\<And>d. d \<in> set ds \<Longrightarrow> allow d \<or> (attemptNo \<le> 4 \<and> is_printer d)"
    and "\<And>d p. allow d \<Longrightarrow> allow (d\<lparr>nd_path := p\<rparr>)"
    and "mount_loop env g attemptNo ds m = (n, ds', m')"
  shows "extends P m m'"
  using assms(1,3)
proof (induction ds arbitrary: m n ds' m')
  case (Cons d ds)
  have IH: "mount_loop env g attemptNo ds m1 = (k, es, m2) \<Longrightarrow> extends P m1 m2" for m1 k es m2
    by (rule Cons.IH) (use Cons.prems(1) in auto)
  have step: "mount_drive env g attemptNo d m = (ok, d', m1) \<Longrightarrow> extends P m m1" for ok d' m1
    by (rule drive_policy) (use Cons.prems(1) assms(2) in auto)
  from Cons.prems(2) show ?case
    by (auto split: if_splits prod.splits intro: extends_trans dest!: IH step)
qed simp

end

interpretation persistent: mount_policy env "\<lambda>a. me_persistent env \<longrightarrow> \<not> is_change a" "\<lambda>_. True"
  by unfold_locales (auto elim: is_printer_action.elims)

text \<open>The conversion from UTF-8 yields the word PRINTER for this word only.\<close>

definition printer_word :: "mount_env \<Rightarrow> bool" where
  "printer_word env \<longleftrightarrow> (\<forall>s. me_utf8 env s = Some (wtext ''PRINTER'') \<longrightarrow> s = ''PRINTER'')"

interpretation no_printers:
  mount_policy env "\<lambda>a. printer_word env \<longrightarrow> \<not> is_printer_action a" "\<lambda>d. \<not> is_printer d"
  by unfold_locales (auto simp: printer_word_def is_printer_def elim: is_change.elims)

subsection \<open>A persistent machine\<close>

text \<open>The operations on the drives, in any order.\<close>

datatype mount_op = MountAll | RemapHome | Received "byte list option"

fun mount_step :: "mount_env \<Rightarrow> creds \<times> mount_state \<Rightarrow> mount_op \<Rightarrow> creds \<times> mount_state" where
  "mount_step env s MountAll = snd (mountNetworkShares env s)"
| "mount_step env s RemapHome = (fst s, remapViaSharedFolder env (fst s) (snd s))"
| "mount_step env s (Received d) = udpReceived env d s"

definition clean_log :: "mount_env \<Rightarrow> creds \<times> mount_state \<Rightarrow> bool" where
  "clean_log env s \<longleftrightarrow> me_persistent env \<longrightarrow> list_all (\<lambda>a. \<not> is_change a) (ms_log (snd s))"

lemma clean_log_extends:
  assumes "clean_log env (g, m)" and "extends (\<lambda>a. me_persistent env \<longrightarrow> \<not> is_change a) m m'"
  shows "clean_log env (g', m')"
  using assms by (auto simp: clean_log_def extends_def list_all_iff)

lemma mountNetworkShares_clean:
  assumes "clean_log env (g, m)"
  shows "clean_log env (snd (mountNetworkShares env (g, m)))"
proof -
  let ?m0 = "m\<lparr>ms_attemptNo := ms_attemptNo m + 1\<rparr>"
  obtain n ds m' where loop: "mount_loop env g (ms_attemptNo ?m0) (drives g) ?m0 = (n, ds, m')"
    by (metis prod_cases3)
  have "extends (\<lambda>a. me_persistent env \<longrightarrow> \<not> is_change a) ?m0 m'"
    by (rule persistent.loop_policy [OF _ _ loop]) simp_all
  moreover have "clean_log env (g, ?m0)" using assms by (simp add: clean_log_def)
  ultimately have "clean_log env (g\<lparr>drives := ds\<rparr>, m')" by (rule clean_log_extends [rotated])
  with assms loop show ?thesis by (simp add: mountNetworkShares_def Let_def)
qed

lemma remapViaSharedFolder_clean:
  assumes "clean_log env (g, m)"
  shows "clean_log env (g, remapViaSharedFolder env g m)"
proof -
  let ?m0 = "m\<lparr>ms_once := True\<rparr>"
  have "clean_log env (g, ?m0)" using assms by (simp add: clean_log_def)
  with assms show ?thesis
    unfolding remapViaSharedFolder_def Let_def
    by (auto split: option.splits intro: clean_log_extends persistent.post_policy persistent.share_policy)
qed

lemma mount_step_clean: "clean_log env s \<Longrightarrow> clean_log env (mount_step env s op)"
proof (cases op)
  case MountAll
  assume "clean_log env s"
  then show ?thesis using MountAll mountNetworkShares_clean by (cases s) simp
next
  case RemapHome
  assume "clean_log env s"
  then show ?thesis using RemapHome remapViaSharedFolder_clean by (cases s) simp
next
  case (Received d)
  assume s: "clean_log env s"
  obtain g m where gm: "s = (g, m)" by (cases s)
  have "clean_log env (fst (udpReceived_pass d g), m)" using s by (simp add: gm clean_log_def)
  with Received gm show ?thesis
    by (auto simp: udpReceived_def split: prod.splits dest: mountNetworkShares_clean)
qed

interpretation drive_session: invariant_machine "mount_step env" "\<lambda>_. True" "clean_log env"
  by unfold_locales (rule mount_step_clean)

text \<open>
  In persistent mode (a machine being edited) no sequence of mounts, retries, datagrams and
  remappings changes the registry, creates a directory or a shortcut, or ends the explorer,
  whatever the share file and the answers of the system are.
\<close>

theorem persistent_mode_no_changes:
  assumes "me_persistent env" and "ms_log m = []"
  shows "list_all (\<lambda>a. \<not> is_change a) (ms_log (snd (foldl (mount_step env) (g, m) ops)))"
proof -
  have "clean_log env (foldl (mount_step env) (g, m) ops)"
    by (rule drive_session.run_good) (use assms in \<open>simp_all add: clean_log_def list_all_iff\<close>)
  with assms(1) show ?thesis by (simp add: clean_log_def)
qed

definition example_mount_env :: mount_env where
  "example_mount_env =
     \<lparr>me_utf8 = (\<lambda>s. Some (wtext s)), me_left = (\<lambda>s. []), me_wnet = (\<lambda>lg l p pr pw u. 0), me_universal = (\<lambda>lg l. None),
      me_folder = (\<lambda>lg p. True), me_regopen = True, me_regquery = (\<lambda>lg v. None),
      me_regset = (\<lambda>lg v t. True), me_stale = [], me_persistent = True, me_createMissing = True,
      me_remapMode = RM_NATIVE_FALLBACK, me_homeDrive = ''H:'',
      me_remap = \<lparr>rm_documents = True, rm_downloads = True, rm_desktop = False, rm_media = False,
                  rm_other = False\<rparr>,
      me_major = 10, me_minor = 0, me_toolhelp = True, me_processes = Some [(wtext ''explorer.exe'', True)],
      me_desktop = wtext ''D'', me_windows = wtext ''W'', me_shelllink = True,
      me_persistfile = True\<rparr>"

theorem persistent_mode_no_changes_witness:
  "list_all (\<lambda>a. \<not> is_change a)
     (ms_log (snd (foldl (mount_step example_mount_env) (creds_init, mount_init) [RemapHome, MountAll])))"
  by (rule persistent_mode_no_changes) (simp_all add: example_mount_env_def mount_init_def)

text \<open>
  Persistent mode is meant to leave shortcuts alone, but a successful mount of a drive with a
  shortcut deletes the link of that name from the desktop and, as no shortcut is created in this
  mode, does not replace it.
\<close>

theorem persistent_mode_deletes_link:
  assumes "me_persistent env" and "nd_shortcut d = Some s" and "s \<noteq> []" and "wide env MAX_PATH s = Some w"
    and "w \<noteq> []" and "\<not> is_printer d"
  shows "ms_log (postSuccessfulMount env d letter m)
    = ms_log m @ [DeleteLink (take (MAX_PATH - 1) (me_desktop env @ wslash @ w @ wtext ''.lnk''))]"
  using assms
  by (simp add: postSuccessfulMount_def createFolderShortcut_def patchUserPaths_def logged_def Let_def)

theorem persistent_mode_deletes_link_witness:
  "ms_log (postSuccessfulMount example_mount_env (home_drive example_mount_env) [0x48, 0x3A] mount_init)
     = [DeleteLink (take (MAX_PATH - 1) (wtext ''D'' @ wslash @ wtext ''Home-Verzeichnis'' @ wtext ''.lnk''))]"
  using persistent_mode_deletes_link [of example_mount_env "home_drive example_mount_env"
      "''Home-Verzeichnis''" "wtext ''Home-Verzeichnis''" "[0x48, 0x3A]" mount_init]
  by (simp add: example_mount_env_def home_drive_def wide_def is_printer_def mount_init_def MAX_PATH_def
      wtext_def)

subsection \<open>Printers, retries and letters\<close>

text \<open>
  Printers are left alone in the first four attempts: none of these attempts connects a
  printer or installs one, whatever the drives are.
\<close>

theorem printers_delayed:
  assumes "printer_word env" and "ms_attemptNo m < 4"
    and "mountNetworkShares env (g, m) = (ok, g', m')"
  shows "\<exists>acts. ms_log m' = ms_log m @ acts \<and> list_all (\<lambda>a. \<not> is_printer_action a) acts"
proof -
  let ?m0 = "m\<lparr>ms_attemptNo := ms_attemptNo m + 1\<rparr>"
  obtain n ds m1 where loop: "mount_loop env g (ms_attemptNo ?m0) (drives g) ?m0 = (n, ds, m1)"
    by (metis prod_cases3)
  have "extends (\<lambda>a. printer_word env \<longrightarrow> \<not> is_printer_action a) ?m0 m1"
    by (rule no_printers.loop_policy [OF _ _ loop]) (use assms(2) in \<open>auto simp: is_printer_def\<close>)
  with assms(1) have "\<exists>acts. ms_log m1 = ms_log m @ acts \<and> list_all (\<lambda>a. \<not> is_printer_action a) acts"
    by (simp add: extends_def)
  with assms(3) loop show ?thesis
    by (auto simp: mountNetworkShares_def Let_def split: if_splits)
qed

definition example_drive :: netdrive where
  "example_drive = \<lparr>nd_path = Some ''p'', nd_pathIp = None, nd_letter = Some ''PRINTER'',
     nd_shortcut = None, nd_user = None, nd_pass = None, nd_success = False\<rparr>"

lemma wtext_inject: "wtext s = wtext t \<Longrightarrow> s = t"
proof -
  have "inj (\<lambda>c. word_of_nat (of_char c) :: wchar)"
  proof (rule injI)
    fix c d :: char
    assume "(word_of_nat (of_char c) :: wchar) = word_of_nat (of_char d)"
    then have "unat (word_of_nat (of_char c) :: wchar) = unat (word_of_nat (of_char d) :: wchar)" by simp
    then show "c = d"
      using of_char_less_256 [of c] of_char_less_256 [of d]
      by (simp add: unsigned_of_nat take_bit_nat_eq_self)
  qed
  then show "wtext s = wtext t \<Longrightarrow> s = t" by (simp add: wtext_def)
qed

theorem printers_delayed_witness:
  "\<exists>acts. ms_log (snd (snd (mountNetworkShares example_mount_env
      (creds_init\<lparr>shareFileOk := True, spass := Some ''x'', drives := [example_drive]\<rparr>, mount_init)))) = acts \<and>
    list_all (\<lambda>a. \<not> is_printer_action a) acts"
proof -
  let ?s = "(creds_init\<lparr>shareFileOk := True, spass := Some ''x'', drives := [example_drive]\<rparr>, mount_init)"
  obtain ok g' m' where "mountNetworkShares example_mount_env ?s = (ok, g', m')" by (metis prod_cases3)
  moreover have "printer_word example_mount_env"
    by (auto simp: printer_word_def example_mount_env_def dest: wtext_inject)
  moreover have "ms_attemptNo mount_init < 4" "ms_log mount_init = []" by (simp_all add: mount_init_def)
  ultimately show ?thesis using printers_delayed by fastforce
qed






text \<open>
  The search for a drive letter goes from Z down to D. If the letters in front of a letter are
  taken, whatever else has been tried, and it is free, the drive gets this letter.
\<close>

theorem find_letter_first_free:
  assumes "drive_letters = taken @ l # rest"
    and "\<And>x lg pw u. x \<in> set taken \<Longrightarrow> letter_taken (me_wnet env lg [x, 0x3A] path False pw u)"
    and "\<And>lg pw u. me_wnet env lg [l, 0x3A] path False pw u = 0"
    and "fst (fill_cache env g m)"
  shows "\<exists>m'. find_letter env g d path [] [] drive_letters m
           = (True, postSuccessfulMount env d [l, 0x3A] m')"
proof -
  have step: "mount env g x path False [] [] m1 =
      (let mc = snd (fill_cache env g m1)
       in (me_wnet env (ms_log mc) x path False (ms_npass mc) (ms_nuser mc),
           logged (Connect x path False (ms_npass mc) (ms_nuser mc)) mc))"
    if "fst (fill_cache env g m1)" for x m1
    using that by (auto simp: mount_def connect_def cred_errors_def Let_def split: prod.splits)
  have keep: "fst (fill_cache env g (logged a (snd (fill_cache env g m1))))"
    if "fst (fill_cache env g m1)" for a m1
    using that by (auto simp: fill_cache_def logged_def Let_def split: prod.splits if_splits)
  have "\<exists>m'. find_letter env g d path [] [] (xs @ l # rest) m1 = (True, postSuccessfulMount env d [l, 0x3A] m')"
    if "set xs \<subseteq> set taken" "fst (fill_cache env g m1)" for xs m1
    using that
  proof (induction xs arbitrary: m1)
    case Nil
    then show ?case using assms(3) by (auto simp: step Let_def letter_taken_def)
  next
    case (Cons x xs)
    then show ?case using assms(2) keep by (simp add: step Let_def)
  qed
  from this [of taken m] assms(1,4) show ?thesis by simp
qed

theorem find_letter_first_free_witness:
  "\<exists>m'. find_letter (example_mount_env\<lparr>me_wnet := (\<lambda>lg l p pr pw u. if l = [0x5A, 0x3A] then 85 else 0)\<rparr>)
      creds_init example_drive [0x70] [] [] drive_letters mount_init
    = (True, postSuccessfulMount
        (example_mount_env\<lparr>me_wnet := (\<lambda>lg l p pr pw u. if l = [0x5A, 0x3A] then 85 else 0)\<rparr>)
        example_drive [0x59, 0x3A] m')"
proof (rule find_letter_first_free [where taken = "[0x5A]" and rest = "drop 2 drive_letters"])
  show "drive_letters = [0x5A] @ 0x59 # drop 2 drive_letters"
    by (simp add: drive_letters_def upt_rec)
qed (simp_all add: letter_taken_def fill_cache_def cache_field_def creds_init_def mount_init_def Let_def)

subsection \<open>The cached credentials\<close>

text \<open>
  Predicates on the state that every operation keeps: \<open>keep\<close> must survive the calls other than
  connections and a \<open>mount\<close> with the password of an allowed drive.
\<close>

locale mount_keeper =
  fixes env :: mount_env and keep :: "mount_state \<Rightarrow> bool" and allow :: "netdrive \<Rightarrow> bool"
  assumes logs: "\<not> is_connect a \<Longrightarrow> keep m \<Longrightarrow> keep (logged a m)"
    and fields: "keep m \<Longrightarrow> keep (m\<lparr>ms_folderStatus := x\<rparr>)" "keep m \<Longrightarrow> keep (m\<lparr>ms_once := y\<rparr>)"
      "keep m \<Longrightarrow> keep (m\<lparr>ms_attemptNo := n\<rparr>)"
    and mounts: "allow d \<Longrightarrow> wide_field env MBUFLEN (nd_pass d) = Some pass \<Longrightarrow> keep m \<Longrightarrow>
      keep (snd (mount env g l path pr pass user m))"
    and paths: "allow d \<Longrightarrow> allow (d\<lparr>nd_path := q\<rparr>)"
    and home: "allow (home_drive env)"
begin

lemma patchRegPath_keep: "keep (snd (snd st)) \<Longrightarrow> keep (snd (snd (patchRegPath env letter e st)))"
  by (cases e; cases st) (auto simp: patchRegPath_def Let_def logs split: option.splits)

lemma patchReg_fold_keep:
  "keep (snd (snd st)) \<Longrightarrow> keep (snd (snd (foldl (\<lambda>st e. patchRegPath env letter e st) st es)))"
  by (induction es arbitrary: st) (simp_all add: patchRegPath_keep)

lemma kill_explorer_keep: "keep m \<Longrightarrow> keep (snd (kill_explorer ps m))"
  by (induction ps m rule: kill_explorer.induct) (auto simp: logs)

lemma patchUserPaths_keep:
  assumes "keep m"
  shows "keep (patchUserPaths env letter m)"
proof -
  let ?st = "(True, False, m\<lparr>ms_folderStatus := FS_ERROR\<rparr>)" let ?t = "patch_table (me_remap env) (10 \<le> me_major env)"
  obtain po am m1 where fold: "foldl (\<lambda>st e. patchRegPath env letter e st) ?st ?t = (po, am, m1)"
    by (metis prod_cases3)
  have m1: "keep m1" using patchReg_fold_keep [of ?st letter ?t] assms fold by (simp add: fields)
  have "keep (snd (kill_explorer ps m1))" for ps using kill_explorer_keep [OF m1] .
  then have kill: "kill_explorer ps m1 = (k, m2) \<Longrightarrow> keep m2" for ps k m2 by (metis snd_conv)
  show ?thesis
    using assms m1
    by (auto simp: patchUserPaths_def fold Let_def fields intro: fields dest: kill split: option.splits prod.splits)
qed

lemma createFolderShortcut_keep: "keep m \<Longrightarrow> keep (createFolderShortcut env t l c m)"
  by (simp add: createFolderShortcut_def Let_def logs)

lemma post_keep: "keep m \<Longrightarrow> keep (postSuccessfulMount env d letter m)"
  by (simp add: postSuccessfulMount_def patchUserPaths_keep createFolderShortcut_keep Let_def logs)

lemma find_letter_keep:
  assumes "allow d" and "wide_field env MBUFLEN (nd_pass d) = Some pass"
  shows "keep m \<Longrightarrow> keep (snd (find_letter env g d path pass user ls m))"
proof (induction ls arbitrary: m)
  case (Cons l ls)
  obtain r m' where mt: "mount env g [l, 0x3A] path False pass user m = (r, m')" by fastforce
  then have "keep m'" using mounts [OF assms Cons.prems] by (metis snd_conv)
  with mt Cons.IH [of m'] show ?case by (auto simp: post_keep)
qed simp

lemma share_keep: "allow d \<Longrightarrow> keep m \<Longrightarrow> keep (snd (mountNetworkShare env g d useIp m))"
proof (cases rule: mountNetworkShare_cases [of env g d useIp m])
  case (named path letter pass user r m1)
  assume d: "allow d" and "keep m"
  then have m1: "keep m1" using mounts [OF d named(5)] named(3) by (metis snd_conv)
  have "keep (snd (find_letter env g d path pass user drive_letters m1))"
    by (rule find_letter_keep [OF d named(5) m1])
  with m1 show ?thesis using named(4) post_keep [OF m1] by auto
next
  case (search path pass user)
  assume "allow d" and "keep m"
  with search show ?thesis using find_letter_keep by simp
qed simp

lemma drive_keep:
  assumes "allow d" and "keep m"
  shows "keep (snd (snd (mount_drive env g a d m)))"
proof -
  have "mountNetworkShare env g d' ip m' = (ok, m'') \<Longrightarrow> allow d' \<Longrightarrow> keep m' \<Longrightarrow> keep m''" for d' ip m' ok m''
    using share_keep [of d' m' g ip] by simp
  then show ?thesis using assms paths [OF assms(1)] by (auto simp: mount_drive_def Let_def split: prod.splits)
qed

lemma loop_keep: "list_all allow ds \<Longrightarrow> keep m \<Longrightarrow> keep (snd (snd (mount_loop env g a ds m)))"
proof (induction ds arbitrary: m)
  case (Cons d ds)
  have IH: "mount_loop env g a ds m1 = (n, ds', m2) \<Longrightarrow> keep m1 \<Longrightarrow> keep m2" for m1 n ds' m2
    using Cons.IH [of m1] Cons.prems by simp
  have step: "mount_drive env g a d m = (ok, d', m1) \<Longrightarrow> keep m1" for ok d' m1
    using drive_keep [of d m g a] Cons.prems by simp
  show ?case using Cons.prems IH step by (auto split: prod.splits)
qed simp

lemma shares_keep:
  "list_all allow (drives (fst s)) \<Longrightarrow> keep (snd s) \<Longrightarrow> keep (snd (snd (mountNetworkShares env s)))"
proof (cases s)
  case (Pair g m)
  assume "list_all allow (drives (fst s))" and "keep (snd s)"
  with Pair loop_keep [of "drives g" "m\<lparr>ms_attemptNo := ms_attemptNo m + 1\<rparr>" g "ms_attemptNo m + 1"]
  show ?thesis by (auto simp: mountNetworkShares_def Let_def fields split: prod.splits)
qed

lemma remap_keep: "keep m \<Longrightarrow> keep (remapViaSharedFolder env g m)"
  by (auto simp: remapViaSharedFolder_def Let_def post_keep share_keep home fields split: option.splits)

lemma udpReceived_keep:
  "list_all allow (drives (fst s)) \<Longrightarrow> keep (snd s) \<Longrightarrow> keep (snd (udpReceived env r s))"
proof (cases s)
  case (Pair g m)
  assume s: "list_all allow (drives (fst s))" "keep (snd s)"
  obtain g1 got where r: "udpReceived_pass r g = (g1, got)" by fastforce
  have "drives g1 = drives g" using r by (auto simp: udpReceived_pass_def Let_def split: option.splits if_splits)
  with s Pair r shares_keep [of "(g1, m)"] show ?thesis by (auto simp: udpReceived_def)
qed

end

text \<open>
  The buffers of \<open>mount\<close> are filled once: as soon as one of them holds something, no operation
  changes them again.
\<close>

definition cached :: "wstring \<Rightarrow> wstring \<Rightarrow> mount_state \<Rightarrow> bool" where
  "cached u p m \<longleftrightarrow> ms_nuser m = u \<and> ms_npass m = p \<and> (u \<noteq> [] \<or> p \<noteq> [])"

lemma fill_cache_cached: "cached u p m \<Longrightarrow> fill_cache env g m = (True, m)"
  by (auto simp: fill_cache_def cached_def)

lemma cached_logged: "cached u p (logged a m) = cached u p m"
  by (simp add: cached_def logged_def)

interpretation cache: mount_keeper env "cached u p" "\<lambda>_. True"
  by unfold_locales
     (auto simp: cached_logged mount_def connect_def fill_cache_cached Let_def, simp_all add: cached_def)

text \<open>
  A password that was used for a connection is the one in the buffer, unless it belongs to a
  drive itself: \<open>own\<close> are the passwords of the drives.
\<close>

fun from_cache :: "mount_env \<Rightarrow> string option list \<Rightarrow> wstring \<Rightarrow> m_action \<Rightarrow> bool" where
  "from_cache env own w (Connect l p printer pw u) \<longleftrightarrow>
     pw = [] \<or> pw = w \<or> Some pw \<in> set (map (wide_field env MBUFLEN) own)"
| "from_cache env own w a \<longleftrightarrow> True"

definition held :: "mount_env \<Rightarrow> string option list \<Rightarrow> mount_state \<Rightarrow> bool" where
  "held env own m \<longleftrightarrow> list_all (from_cache env own (ms_npass m)) (ms_log m)"

lemma from_cache_first: "from_cache env own [] a \<Longrightarrow> from_cache env own w a"
  by (cases a) auto

lemma from_cache_other: "\<not> is_connect a \<Longrightarrow> from_cache env own w a"
  by (cases a) auto

lemma held_logged: "held env own (logged a m) \<longleftrightarrow> from_cache env own (ms_npass m) a \<and> held env own m"
  by (auto simp: held_def logged_def)

lemma fill_cache_held: "held env own m \<Longrightarrow> held env own (snd (fill_cache env g m))"
  by (auto simp: held_def fill_cache_def Let_def list_all_iff from_cache_first split: prod.split)

lemma mount_held:
  assumes "pass = [] \<or> Some pass \<in> set (map (wide_field env MBUFLEN) own)" and "held env own m"
  shows "held env own (snd (mount env g l path pr pass user m))"
proof -
  have c: "held env own m1" if "connect env l path pr pass user m = (r, m1)" for r m1
    using that assms by (auto simp: connect_def held_logged)
  have f: "held env own m2" if "held env own m1" "fill_cache env g m1 = (ok, m2)" for m1 ok m2
    using fill_cache_held [OF that(1), of g] that(2) by simp
  have last: "held env own (snd (connect env l path pr (ms_npass m2) u m2))" if "held env own m2" for m2 u
    using that by (simp add: connect_def held_logged)
  show ?thesis using assms(2) by (auto simp: mount_def Let_def dest: c intro: last f split: prod.splits)
qed

interpretation hold: mount_keeper env "held env (Some [] # own)" "\<lambda>d. nd_pass d \<in> set (Some [] # own)"
proof
  fix d :: netdrive and pass m g l path pr user
  assume "nd_pass d \<in> set (Some [] # own)" and "wide_field env MBUFLEN (nd_pass d) = Some pass"
  then have "Some pass \<in> set (map (wide_field env MBUFLEN) (Some [] # own))" by (metis image_eqI set_map)
  then show "held env (Some [] # own) m \<Longrightarrow> held env (Some [] # own) (snd (mount env g l path pr pass user m))"
    using mount_held by blast
qed (simp_all add: held_logged from_cache_other home_drive_def, simp_all add: held_def)

interpretation cache_session: invariant_machine "mount_step env" "\<lambda>_. True" "\<lambda>s. cached u p (snd s)"
proof
  fix s :: "creds \<times> mount_state" and op
  assume "cached u p (snd s)"
  then show "cached u p (snd (mount_step env s op))"
    by (cases op) (simp_all add: cache.shares_keep cache.remap_keep cache.udpReceived_keep list_all_iff)
qed

text \<open>
  C38: the user's own credentials are converted once and kept. If the first connection with them is
  made with a user name that is not empty and before a password is known (the shared folder is mapped after the password daemon did not answer),
  then after any sequence of mounts, datagrams and remappings, whatever password the agent has by
  then, a mount without credentials of its own asks for the connection with the user's name and
  the empty password.
\<close>

theorem late_password_not_used:
  assumes "suser g = Some u" and "wide env MBUFLEN u = Some w" and "w \<noteq> []" and "spass g = None"
    and "ms_nuser m = []" and "ms_npass m = []"
    and "mount env g letter path printer [] [] m = (r, m1)"
    and "foldl (mount_step env) (g1, m1) ops = (g2, m2)"
  shows "mount env g2 letter' path' printer' [] [] m2 =
    (me_wnet env (ms_log m2) letter' path' printer' [] w,
     m2\<lparr>ms_log := ms_log m2 @ [Connect letter' path' printer' [] w]\<rparr>)"
proof -
  have "cached w [] m1"
    using assms(1-7)
    by (auto simp: mount_def fill_cache_def cache_field_def connect_def logged_def cached_def cred_errors_def Let_def)
  then have "cached w [] m2"
    using cache_session.run_good [of w "[]" "(g1, m1)" ops env] assms(8) by (simp add: list_all_iff)
  then show ?thesis
    by (simp add: mount_def fill_cache_cached connect_def logged_def cred_errors_def)
       (simp add: cached_def)
qed

theorem late_password_not_used_witness:
  "\<exists>m1 m2. snd (mount example_mount_env (creds_init\<lparr>suser := Some ''u''\<rparr>) [] [0x70] False [] [] mount_init) = m1 \<and>
     foldl (mount_step example_mount_env) (creds_init\<lparr>suser := Some ''u'', spass := Some ''pw''\<rparr>, m1) [RemapHome]
       = (creds_init\<lparr>suser := Some ''u'', spass := Some ''pw''\<rparr>, m2) \<and>
     snd (mount example_mount_env (creds_init\<lparr>suser := Some ''u'', spass := Some ''pw''\<rparr>) [] [0x70] False [] [] m2)
       = m2\<lparr>ms_log := ms_log m2 @ [Connect [] [0x70] False [] [0x75]]\<rparr>"
proof -
  let ?g = "creds_init\<lparr>suser := Some ''u'', spass := Some ''pw''\<rparr>"
  obtain r m1 where run: "mount example_mount_env (creds_init\<lparr>suser := Some ''u''\<rparr>) [] [0x70] False [] [] mount_init
      = (r, m1)" by fastforce
  obtain m2 where later: "foldl (mount_step example_mount_env) (?g, m1) [RemapHome] = (?g, m2)" by simp
  have "wide example_mount_env MBUFLEN ''u'' = Some [0x75]"
    by (simp add: wide_def example_mount_env_def wtext_def MBUFLEN_def)
  from late_password_not_used [OF _ this _ _ _ _ run later, of "[]" "[0x70]" False] run later
  show ?thesis by (intro exI [of _ m1] exI [of _ m2]) (simp add: creds_init_def mount_init_def)
qed

end
