(* ===== verification/WinresShell.thy ===== *)
theory WinresShell
  imports GuestCreds
begin

section \<open>Start scripts of the guest agent (run-virt/winres/src/winres.c)\<close>

text \<open>
  \<open>escapeShellArg\<close> quotes an argument for a Windows command line in a bounded buffer, and
  \<open>launchRunscript\<close> starts the scripts of \<open>B:\adminrun\<close> and the classic run script with the
  user's credentials.

  A wide string is the list of its 16-bit units up to the terminating zero. The buffer being
  written is the list of the units written so far; a position is the length of that list, and
  \<open>e\<close> is the position behind which the source does not write (its \<open>end\<close>). The loop of
  \<open>escapeShellArg\<close> may run forever, which is the value \<open>None\<close> here. The conversions of
  \<open>MultiByteToWideChar\<close>, the directory listing and the settings are arguments.
\<close>

abbreviation wq :: wchar where
  "wq \<equiv> 0x22"

abbreviation wb :: wchar where
  "wb \<equiv> 0x5c"

definition BUFLEN :: nat where
  "BUFLEN = 200"

subsection \<open>Quoting\<close>

fun esc_backslashes :: "wstring \<Rightarrow> wstring \<Rightarrow> nat \<Rightarrow> nat \<Rightarrow> wstring \<times> wstring \<times> nat" where
  "esc_backslashes [] out e bs = ([], out, bs)"
| "esc_backslashes (c # s) out e bs =
     (if c = wb \<and> length out < e then esc_backslashes s (out @ [c]) e (Suc bs) else (c # s, out, bs))"

fun esc_double :: "nat \<Rightarrow> wstring \<Rightarrow> nat \<Rightarrow> wstring" where
  "esc_double 0 out e = out"
| "esc_double (Suc bs) out e = (if length out < e then esc_double bs (out @ [wb]) e else out)"

partial_function (option) esc_loop :: "wstring \<Rightarrow> wstring \<Rightarrow> nat \<Rightarrow> wstring option" where
  "esc_loop s out e =
     (if s = [] then Some out
      else case esc_backslashes s out e 0 of (s1, out1, bs) \<Rightarrow>
        if s1 = [] then Some (esc_double bs out1 e)
        else let out2 = (if hd s1 = wq then esc_double bs out1 e else out1);
                 out3 = (if hd s1 = wq \<and> length out2 < e then out2 @ [wb] else out2)
             in if length out3 < e then esc_loop (tl s1) (out3 @ [hd s1]) e
                else esc_loop s1 out3 e)"

declare esc_loop.simps [code]

definition escapeShellArg :: "wstring \<Rightarrow> wstring \<Rightarrow> nat \<Rightarrow> wstring option" where
  "escapeShellArg s out endp =
     (let e = endp - 2
      in if e \<le> length out then Some out
         else case esc_loop s (out @ [wq]) e of
           None \<Rightarrow> None
         | Some out' \<Rightarrow> Some (if length out' < e then out' @ [wq] else out'))"

subsection \<open>Running the scripts\<close>

definition mapScriptVisibility :: "int \<Rightarrow> int" where
  "mapScriptVisibility i = (if i = 0 then 0 else if i = 2 then 7 else 1)"

text \<open>The conversion \<open>%d\<close> and the whole format \<open>%d-%d-%d\<close> of \<open>sscanf\<close>.\<close>

definition scan_int :: "string \<Rightarrow> (int \<times> string) option" where
  "scan_int s = (let (v, r) = strtol_win s in if r = s then None else Some (v, r))"

definition scan_dash :: "string \<Rightarrow> string option" where
  "scan_dash s = (case s of c # r \<Rightarrow> if c = CHR ''-'' then Some r else None | [] \<Rightarrow> None)"

definition scan_script_name :: "string \<Rightarrow> (int \<times> int \<times> int) option" where
  "scan_script_name s =
     (case scan_int s of None \<Rightarrow> None | Some (a, s1) \<Rightarrow>
     (case scan_dash s1 of None \<Rightarrow> None | Some s2 \<Rightarrow>
     (case scan_int s2 of None \<Rightarrow> None | Some (b, s3) \<Rightarrow>
     (case scan_dash s3 of None \<Rightarrow> None | Some s4 \<Rightarrow>
     (case scan_int s4 of None \<Rightarrow> None | Some (c, s5) \<Rightarrow> Some (a, b, c))))))"

record script_env =
  se_utf8 :: "string \<Rightarrow> wstring option"
  se_acp :: "string \<Rightarrow> wstring option"
  se_dir :: "(string \<times> bool) list"
  se_visibility :: int
  se_scriptFile :: wstring
  se_passCreds :: bool

record script_state =
  ss_fails :: int
  ss_done :: bool

datatype script_action = ShellExecute wstring wstring int | KillScriptTimer

definition to_wide :: "(string \<Rightarrow> wstring option) \<Rightarrow> string \<Rightarrow> wstring option" where
  "to_wide conv s = (case conv s of None \<Rightarrow> None | Some w \<Rightarrow> if length w < BUFLEN then Some w else None)"

text \<open>The entries of \<open>B:\adminrun\<close> that match \<open>*-*-*\<close>, with a flag for directories.\<close>

definition run_entry ::
  "script_env \<Rightarrow> wstring \<Rightarrow> wstring \<Rightarrow> string \<times> bool \<Rightarrow> script_action list" where
  "run_entry env params emptyParams entry =
     (case entry of (name, isdir) \<Rightarrow>
        if name = ''.'' \<or> name = ''..'' \<or> isdir then []
        else (case to_wide (se_acp env)
                     (snprintf_buf 200 (''B:'' @ [CHR 0x5C] @ ''adminrun'' @ [CHR 0x5C] @ name)) of
          None \<Rightarrow> []
        | Some ucPath \<Rightarrow>
            (case scan_script_name name of
               None \<Rightarrow> []
             | Some (idx, visibility, passCreds) \<Rightarrow>
                 [ShellExecute ucPath (if passCreds \<noteq> 0 then params else emptyParams)
                    (mapScriptVisibility visibility)])))"

definition script_failure :: "script_state \<Rightarrow> script_state" where
  "script_failure st =
     (let f = ss_fails st + 1 in st\<lparr>ss_fails := f, ss_done := (if 12 < f then True else ss_done st)\<rparr>)"

text \<open>The command line with both credentials and the one with the user only.\<close>

definition script_params :: "wstring \<Rightarrow> wstring \<Rightarrow> (wstring \<times> wstring) option" where
  "script_params nuser npass =
     (case escapeShellArg nuser [] (BUFLEN - 2) of
        None \<Rightarrow> None
      | Some p1 \<Rightarrow>
          (case escapeShellArg npass (p1 @ [0x20]) (BUFLEN - 2) of
             None \<Rightarrow> None
           | Some params \<Rightarrow>
               (case escapeShellArg nuser [] (BUFLEN - 2) of
                  None \<Rightarrow> None
                | Some emptyParams \<Rightarrow> Some (params, emptyParams))))"

definition launchRunscript ::
  "script_env \<Rightarrow> string option \<Rightarrow> string option \<Rightarrow> script_state
     \<Rightarrow> (script_state \<times> script_action list) option" where
  "launchRunscript env user pass st =
     (if ss_done st then Some (st, [KillScriptTimer])
      else (case pass of
        None \<Rightarrow> Some (script_failure st, [])
      | Some password \<Rightarrow>
          (case (Option.bind user (to_wide (se_utf8 env)), to_wide (se_utf8 env) password) of
             (Some nuser, Some npass) \<Rightarrow>
               (case script_params nuser npass of
                  None \<Rightarrow> None
                | Some (params, emptyParams) \<Rightarrow>
                    Some (st\<lparr>ss_done := True\<rparr>,
                          concat (map (run_entry env params emptyParams) (se_dir env)) @
                          [ShellExecute (se_scriptFile env)
                             (if se_passCreds env then params else emptyParams)
                             (mapScriptVisibility (se_visibility env))]))
           | _ \<Rightarrow> Some (script_failure st, []))))"

subsection \<open>What quoting means\<close>

text \<open>
  The text \<open>escapeShellArg\<close> puts between the quotes when there is room: \<open>n\<close> backslashes are
  pending in front of the rest. \<open>esc_body\<close> is the same without the doubling of backslashes at
  the very end.
\<close>

fun esc_text :: "wstring \<Rightarrow> nat \<Rightarrow> wstring" where
  "esc_text [] n = replicate n wb"
| "esc_text (c # s) n =
     (if c = wb then wb # esc_text s (Suc n)
      else if c = wq then replicate n wb @ [wb, wq] @ esc_text s 0
      else c # esc_text s 0)"

fun esc_body :: "wstring \<Rightarrow> nat \<Rightarrow> wstring" where
  "esc_body [] n = []"
| "esc_body (c # s) n =
     (if c = wb then wb # esc_body s (Suc n)
      else if c = wq then replicate n wb @ [wb, wq] @ esc_body s 0
      else c # esc_body s 0)"

text \<open>
  How the started program reads a quoted argument (the documented rules of the Microsoft C
  runtime): \<open>2n\<close> backslashes and a quote are \<open>n\<close> backslashes and the end of the argument,
  \<open>2n+1\<close> backslashes and a quote are \<open>n\<close> backslashes and a quote character, other backslashes
  stand for themselves. The result is the argument and the text behind the closing quote.
\<close>

fun argv_quoted :: "wstring \<Rightarrow> nat \<Rightarrow> (wstring \<times> wstring) option" where
  "argv_quoted [] n = None"
| "argv_quoted (c # s) n =
     (if c = wb then argv_quoted s (Suc n)
      else if c = wq then
        (if even n then Some (replicate (n div 2) wb, s)
         else map_option (\<lambda>(a, r). (replicate (n div 2) wb @ wq # a, r)) (argv_quoted s 0))
      else map_option (\<lambda>(a, r). (replicate n wb @ c # a, r)) (argv_quoted s 0))"

subsection \<open>The loops\<close>

lemma esc_backslashes_run:
  assumes "t = [] \<or> hd t \<noteq> wb" and "length out \<le> e"
  shows "esc_backslashes (replicate k wb @ t) out e bs =
    (if length out + k \<le> e then (t, out @ replicate k wb, bs + k)
     else (replicate (k - (e - length out)) wb @ t, out @ replicate (e - length out) wb,
           bs + (e - length out)))"
  using assms
proof (induction k arbitrary: out bs)
  case 0
  then show ?case by (cases t) auto
next
  case (Suc k)
  show ?case
  proof (cases "length out < e")
    case True
    then have "e - length out = Suc (e - Suc (length out))" by simp
    with True Suc.IH [of "out @ [wb]" "Suc bs"] Suc.prems show ?thesis by auto
  next
    case False
    with Suc.prems show ?thesis by simp
  qed
qed

lemma esc_double_run: "esc_double b out e = out @ replicate (min b (e - length out)) wb"
proof (induction b arbitrary: out)
  case (Suc b)
  show ?case
  proof (cases "length out < e")
    case True
    then have "e - length out = Suc (e - Suc (length out))" by simp
    with True Suc.IH [of "out @ [wb]"] show ?thesis by simp
  next
    case False
    then show ?thesis by simp
  qed
qed simp

lemma esc_loop_full:
  assumes "esc_loop s out e = Some r"
  shows "\<not> (s \<noteq> [] \<and> e \<le> length out)"
proof (rule esc_loop.raw_induct [OF _ assms], goal_cases)
  case (1 esc s out e r)
  show ?case
  proof
    assume full: "s \<noteq> [] \<and> e \<le> length out"
    then have "esc_backslashes s out e 0 = (s, out, 0)" by (cases s) auto
    with full 1 show False
      by (auto simp: esc_double_run split: if_splits)
  qed
qed

lemma esc_loop_stuck: "s \<noteq> [] \<Longrightarrow> e \<le> length out \<Longrightarrow> esc_loop s out e = None"
  using esc_loop_full by (cases "esc_loop s out e") blast+

lemma esc_text_backslashes: "esc_text (replicate k wb @ t) n = replicate k wb @ esc_text t (n + k)"
  by (induction k arbitrary: n) auto

lemma esc_body_backslashes: "esc_body (replicate k wb @ t) n = replicate k wb @ esc_body t (n + k)"
  by (induction k arbitrary: n) auto

lemma length_esc_body_le: "length (esc_body s n) \<le> length (esc_text s n)"
  by (induction s arbitrary: n) auto

lemma backslashes_split:
  obtains k t where "s = replicate k wb @ t" and "t = [] \<or> hd t \<noteq> wb"
proof
  let ?P = "\<lambda>c. c = wb"
  have "takeWhile ?P s = replicate (length (takeWhile ?P s)) wb"
    by (rule replicate_eqI) (auto dest: set_takeWhileD)
  then show "s = replicate (length (takeWhile ?P s)) wb @ dropWhile ?P s"
    by (metis takeWhile_dropWhile_id)
  show "dropWhile ?P s = [] \<or> hd (dropWhile ?P s) \<noteq> wb"
    using hd_dropWhile [of ?P s] by blast
qed

text \<open>One round of the loop on a text that starts with \<open>k\<close> backslashes.\<close>

lemma esc_loop_round:
  assumes t: "t = [] \<or> hd t \<noteq> wb" and fit: "length out + k \<le> e"
  shows "esc_loop (replicate k wb @ t) out e =
    (if t = [] then Some (out @ replicate k wb @ replicate (min k (e - (length out + k))) wb)
     else if hd t = wq then
       (if length out + 2 * k + 2 \<le> e
        then esc_loop (tl t) (out @ replicate k wb @ replicate k wb @ [wb, wq]) e else None)
     else if length out + k < e then esc_loop (tl t) (out @ replicate k wb @ [hd t]) e else None)"
proof (cases t)
  case Nil
  then show ?thesis
    using fit esc_backslashes_run [of "[]" out e k 0]
    by (cases k) (simp_all add: esc_loop.simps [of _ out e] esc_double_run)
next
  case (Cons c t')
  have run: "esc_backslashes (replicate k wb @ t) out e 0 = (t, out @ replicate k wb, k)"
    using esc_backslashes_run [OF t, of out e k 0] fit by simp
  show ?thesis
  proof (cases "c = wq")
    case True
    then show ?thesis
      using Cons run fit esc_loop_stuck [of t e]
      by (subst esc_loop.simps) (auto simp: esc_double_run Let_def min_def)
  next
    case False
    then show ?thesis
      using Cons run fit esc_loop_stuck [of t e] by (subst esc_loop.simps) (auto simp: Let_def)
  qed
qed

lemma esc_loop_overfull:
  assumes "t = [] \<or> hd t \<noteq> wb" and "length out \<le> e" and "e < length out + k"
  shows "esc_loop (replicate k wb @ t) out e = None"
proof -
  from assms obtain j where j: "k - (e - length out) = Suc j" by (cases "k - (e - length out)") auto
  have "esc_loop (replicate k wb @ t) out e
      = esc_loop (replicate (Suc j) wb @ t) (out @ replicate (e - length out) wb) e"
    using assms esc_backslashes_run [OF assms(1,2), of k 0] j
    by (subst esc_loop.simps) (auto simp: Let_def)
  with assms(2) esc_loop_stuck [of "replicate (Suc j) wb @ t" e "out @ replicate (e - length out) wb"]
  show ?thesis by simp
qed

lemma esc_loop_exact:
  "length out \<le> e \<Longrightarrow> esc_loop s out e =
     (if length out + length (esc_body s 0) \<le> e
      then Some (out @ take (e - length out) (esc_text s 0)) else None)"
proof (induction "length s" arbitrary: s out rule: less_induct)
  case less
  obtain k t where s: "s = replicate k wb @ t" and t: "t = [] \<or> hd t \<noteq> wb"
    by (rule backslashes_split)
  show ?case
  proof (cases "length out + k \<le> e")
    case False
    with esc_loop_overfull [OF t less.prems, of k] show ?thesis by (simp add: s esc_body_backslashes)
  next
    case True
    show ?thesis
    proof (cases t)
      case Nil
      then show ?thesis
        using True esc_loop_round [OF t True] esc_text_backslashes [of k "[]" 0]
          esc_body_backslashes [of k "[]" 0] by (simp add: s min.commute)
    next
      case (Cons c t')
      note IH = less.hyps [of t'] and texts = esc_text_backslashes esc_body_backslashes
      have c: "c \<noteq> wb" using t Cons by simp
      show ?thesis
      proof (cases "c = wq")
        case quote: True
        with Cons True show ?thesis
          using IH [of "out @ replicate k wb @ replicate k wb @ [wb, wq]"]
            esc_loop_round [OF t True]
          by (auto simp: s texts take_Cons' add.assoc)
      next
        case False
        with Cons True c show ?thesis
          using IH [of "out @ replicate k wb @ [c]"]
            esc_loop_round [OF t True]
          by (auto simp: s texts take_Cons')
      qed
    qed
  qed
qed

subsection \<open>Properties of the quoting\<close>

lemma escapeShellArg_exact:
  assumes "length out < endp - 2"
  shows "escapeShellArg s out endp =
    (let room = endp - 2 - Suc (length out)
     in if length (esc_body s 0) \<le> room
        then Some (out @ [wq] @ take room (esc_text s 0) @
                   (if length (esc_text s 0) < room then [wq] else []))
        else None)"
  using assms esc_loop_exact [of "out @ [wq]" "endp - 2" s]
  by (auto simp: escapeShellArg_def Let_def min_def)

lemma escapeShellArg_fits:
  assumes "length out + length (esc_text s 0) + 2 \<le> endp - 2"
  shows "escapeShellArg s out endp = Some (out @ [wq] @ esc_text s 0 @ [wq])"
proof -
  have "length (esc_body s 0) \<le> endp - 2 - Suc (length out)"
    using assms length_esc_body_le [of s 0] by linarith
  then show ?thesis using assms by (simp add: escapeShellArg_exact Let_def)
qed

lemma argv_quoted_backslashes: "argv_quoted (replicate j wb @ t) i = argv_quoted t (i + j)"
  by (induction j arbitrary: i) auto

lemma argv_quoted_esc_text:
  "argv_quoted (esc_text s n @ wq # r) n = Some (replicate n wb @ s, r)"
proof (induction s arbitrary: n)
  case Nil
  then show ?case by (simp add: argv_quoted_backslashes)
next
  case (Cons c s)
  then show ?case by (auto simp: argv_quoted_backslashes replicate_app_Cons_same)
qed

text \<open>
  C7: when the quoted text fits, the program that is started reads back exactly the argument,
  whatever quotes and backslashes it contains, and what follows it on the command line is
  untouched.
\<close>

theorem escapeShellArg_roundtrip:
  assumes "length out + length (esc_text s 0) + 2 \<le> endp - 2"
  shows "\<exists>q. escapeShellArg s out endp = Some (out @ wq # q) \<and>
             argv_quoted (q @ r) 0 = Some (s, r)"
  using escapeShellArg_fits [OF assms] argv_quoted_esc_text [of s 0 r] by simp

theorem escapeShellArg_roundtrip_witness:
  "\<exists>q. escapeShellArg [0x61, wb, wq, wb] [] 198 = Some (wq # q) \<and>
       argv_quoted (q @ []) 0 = Some ([0x61, wb, wq, wb], [])"
  using escapeShellArg_roundtrip [of "[]" "[0x61, wb, wq, wb]" 198 "[]"] by simp

text \<open>
  C26: the quoting loop runs forever exactly when the escaped text does not fit in front of the
  end it was given; when it returns, it has not written behind that end.
\<close>

theorem escapeShellArg_returns_iff:
  assumes "length out < endp - 2"
  shows "(escapeShellArg s out endp = None) = (endp - 2 < length out + 1 + length (esc_body s 0)) \<and>
         (case escapeShellArg s out endp of None \<Rightarrow> True
          | Some r \<Rightarrow> length r \<le> endp - 2 \<and> take (length out) r = out)"
  using assms by (auto simp: escapeShellArg_exact Let_def)

theorem escapeShellArg_returns_iff_witness:
  "escapeShellArg (replicate 196 0x61) [] 198 = None"
proof -
  have "esc_body (replicate n 0x61) 0 = replicate n 0x61" for n by (induction n) auto
  then show ?thesis
    using escapeShellArg_returns_iff [of "[]" 198 "replicate 196 0x61"] by simp
qed

subsection \<open>Properties of the script start\<close>

text \<open>A command line as the started program sees it: one or two quoted arguments.\<close>

definition argv_list :: "wstring \<Rightarrow> wstring list option" where
  "argv_list ps =
     (if ps = [] \<or> hd ps \<noteq> wq then None
      else case argv_quoted (tl ps) 0 of
        None \<Rightarrow> None
      | Some (a, r) \<Rightarrow>
          if r = [] then Some [a]
          else if take 2 r \<noteq> [0x20, wq] then None
          else (case argv_quoted (drop 2 r) 0 of Some (b, []) \<Rightarrow> Some [a, b] | _ \<Rightarrow> None))"

lemma script_params_fit:
  assumes "length (esc_text nu 0) + length (esc_text np 0) \<le> 191"
  shows "script_params nu np =
    Some (wq # esc_text nu 0 @ [wq, 0x20, wq] @ esc_text np 0 @ [wq], wq # esc_text nu 0 @ [wq])"
  using assms escapeShellArg_fits [of "[]" nu "BUFLEN - 2"]
    escapeShellArg_fits [of "wq # esc_text nu 0 @ [wq, 0x20]" np "BUFLEN - 2"]
  by (simp add: script_params_def BUFLEN_def)

lemma argv_list_params:
  "argv_list (wq # esc_text nu 0 @ [wq]) = Some [nu]"
  "argv_list (wq # esc_text nu 0 @ [wq, 0x20, wq] @ esc_text np 0 @ [wq]) = Some [nu, np]"
  using argv_quoted_esc_text [of nu 0] argv_quoted_esc_text [of np 0 "[]"]
  by (simp_all add: argv_list_def)

text \<open>
  The scripts that are to be started, each with its file, the arguments it reads and the kind of its
  window: for every file of the directory with a name of three numbers, in the order of the directory,
  one start, with the password if the third number is not 0; then the script of the settings.
\<close>

definition window_kind :: "int \<Rightarrow> int" where
  "window_kind v = (if v = 0 then 0 else if v = 2 then 7 else 1)"

definition entry_start ::
  "script_env \<Rightarrow> wstring \<Rightarrow> wstring \<Rightarrow> string \<times> bool \<Rightarrow> (wstring \<times> wstring list option \<times> int) list" where
  "entry_start env nu np e =
     (if fst e \<in> {''.'', ''..''} \<or> snd e then []
      else case (to_wide (se_acp env) (take 199 (''B:'' @ [CHR 0x5C] @ ''adminrun'' @ [CHR 0x5C] @ fst e)),
                 scan_script_name (fst e)) of
        (Some f, Some (i, v, c)) \<Rightarrow> [(f, Some (if c = 0 then [nu] else [nu, np]), window_kind v)]
      | _ \<Rightarrow> [])"

fun started :: "script_action \<Rightarrow> wstring \<times> wstring list option \<times> int" where
  "started (ShellExecute f ps v) = (f, argv_list ps, v)"
| "started KillScriptTimer = ([], None, 0)"

lemma run_entry_started:
  assumes "argv_list pp = Some [nu, np]" and "argv_list ep = Some [nu]"
  shows "map started (run_entry env pp ep e) = entry_start env nu np e"
  using assms
  by (cases e)
     (auto simp: run_entry_def entry_start_def snprintf_buf_def window_kind_def mapScriptVisibility_def
       split: option.splits)

lemma run_entries_started:
  assumes "argv_list pp = Some [nu, np]" and "argv_list ep = Some [nu]"
  shows "map started (concat (map (run_entry env pp ep) es)) = concat (map (entry_start env nu np) es)"
  by (simp add: map_concat comp_def run_entry_started [OF assms])

lemma run_entry_no_kill: "KillScriptTimer \<notin> set (run_entry env pp ep e)"
  by (auto simp: run_entry_def split: prod.splits if_splits option.splits)

text \<open>
  C25: when the credentials are there and fit, one call starts all scripts: the calls of
  \<open>ShellExecuteW\<close> are exactly one per file of the directory whose name has the form of three numbers,
  in the order of the directory, and one for the script of the settings at the end. Each script
  reads from its command line exactly the user name and, if its third number (for the last one, the
  setting) asks for it, exactly the password; no other script gets the password. After that the
  scripts count as done.
\<close>

theorem launchRunscript_credentials:
  assumes "\<not> ss_done st"
    and "to_wide (se_utf8 env) user = Some nu" and "to_wide (se_utf8 env) password = Some np"
    and "length (esc_text nu 0) + length (esc_text np 0) \<le> 191"
  shows "\<exists>acts. launchRunscript env (Some user) (Some password) st = Some (st\<lparr>ss_done := True\<rparr>, acts) \<and>
    KillScriptTimer \<notin> set acts \<and>
    map started acts = concat (map (entry_start env nu np) (se_dir env)) @
      [(se_scriptFile env, Some (if se_passCreds env then [nu, np] else [nu]), window_kind (se_visibility env))]"
proof -
  let ?pp = "wq # esc_text nu 0 @ [wq, 0x20, wq] @ esc_text np 0 @ [wq]"
  let ?ep = "wq # esc_text nu 0 @ [wq]"
  show ?thesis
    using assms script_params_fit [OF assms(4)] run_entry_no_kill
      run_entries_started [of ?pp nu np ?ep env] argv_list_params [of nu] argv_list_params(2) [of nu np]
    by (auto simp: launchRunscript_def window_kind_def mapScriptVisibility_def)
qed

definition example_script_env :: script_env where
  "example_script_env =
     \<lparr>se_utf8 = (\<lambda>s. Some (map (\<lambda>c. word_of_nat (of_char c)) s)),
      se_acp = (\<lambda>s. Some (map (\<lambda>c. word_of_nat (of_char c)) s)),
      se_dir = [(''1-0-0'', False), (''2-2-1'', False), (''..'', True)], se_visibility = 1, se_scriptFile = [0x42], se_passCreds = False\<rparr>"

theorem launchRunscript_credentials_witness:
  "\<exists>acts. launchRunscript example_script_env (Some ''ab'') (Some ''p q'') \<lparr>ss_fails = 0, ss_done = False\<rparr>
     = Some (\<lparr>ss_fails = 0, ss_done = True\<rparr>, acts) \<and>
     map (snd \<circ> started) acts =
       [(Some [[0x61, 0x62]], 0), (Some [[0x61, 0x62], [0x70, 0x20, 0x71]], 7), (Some [[0x61, 0x62]], 1)]"
proof -
  have conv: "to_wide (se_utf8 example_script_env) ''ab'' = Some [0x61, 0x62]"
      "to_wide (se_utf8 example_script_env) ''p q'' = Some [0x70, 0x20, 0x71]"
    by (simp_all add: to_wide_def example_script_env_def BUFLEN_def)
  have example_dir: "se_dir example_script_env = [(''1-0-0'', False), (''2-2-1'', False), (''..'', True)]"
      "\<not> se_passCreds example_script_env" "se_visibility example_script_env = 1"
    by (simp_all add: example_script_env_def)
  have names: "scan_script_name ''1-0-0'' = Some (1, 0, 0)" "scan_script_name ''2-2-1'' = Some (2, 2, 1)"
    by (simp_all add: scan_script_name_def scan_int_def scan_dash_def c_strtol_def c_isspace_def
        c_isdigit_def digits_val_def digit_val_def clamp_def)
  have "\<not> ss_done \<lparr>ss_fails = 0, ss_done = False\<rparr>"
    and "length (esc_text [0x61, 0x62] 0) + length (esc_text [0x70, 0x20, 0x71] 0) \<le> 191" by simp_all
  from launchRunscript_credentials [OF this(1) conv this(2)] obtain acts where
    run: "launchRunscript example_script_env (Some ''ab'') (Some ''p q'') \<lparr>ss_fails = 0, ss_done = False\<rparr>
        = Some (\<lparr>ss_fails = 0, ss_done = True\<rparr>, acts)"
    and acts: "map started acts = concat (map (entry_start example_script_env [0x61, 0x62] [0x70, 0x20, 0x71])
        (se_dir example_script_env)) @ [(se_scriptFile example_script_env,
        Some (if se_passCreds example_script_env then [[0x61, 0x62], [0x70, 0x20, 0x71]] else [[0x61, 0x62]]),
        window_kind (se_visibility example_script_env))]" by auto
  have "\<exists>w. to_wide (se_acp example_script_env) x = Some w" if "length x < 200" for x
    using that by (simp add: to_wide_def example_script_env_def BUFLEN_def)
  then have entry: "map snd (entry_start example_script_env nu np (n, False)) = [(Some (if c = 0 then [nu] else [nu, np]), window_kind v)]"
    if "scan_script_name n = Some (i, v, c)" "n \<notin> {''.'', ''..''}" for nu np n i v c
    using that by (auto simp: entry_start_def split: option.splits)
  have kind: "window_kind 1 = 1" by (simp add: window_kind_def)
  let ?e = "entry_start example_script_env [0x61, 0x62] [0x70, 0x20, 0x71]"
  have e: "map snd (?e (''1-0-0'', False)) = [(Some [[0x61, 0x62]], 0)]"
      "map snd (?e (''2-2-1'', False)) = [(Some [[0x61, 0x62], [0x70, 0x20, 0x71]], 7)]" "?e (''..'', True) = []"
    by (subst entry [OF names(1)], simp, simp add: window_kind_def, subst entry [OF names(2)], simp,
        simp add: window_kind_def, simp add: entry_start_def)
  have "map (snd \<circ> started) acts = map snd (map started acts)" by simp
  also have "\<dots> = map snd (?e (''1-0-0'', False)) @ map snd (?e (''2-2-1'', False)) @ map snd (?e (''..'', True))
      @ [(Some [[0x61, 0x62]], 1)]"
    unfolding acts example_dir(1,3) using example_dir(2)
    by (simp only: list.map concat.simps append_Nil2 map_append append_assoc if_False snd_conv kind)
  also have "\<dots> = [(Some [[0x61, 0x62]], 0), (Some [[0x61, 0x62], [0x70, 0x20, 0x71]], 7), (Some [[0x61, 0x62]], 1)]"
    by (simp only: e) simp
  finally show ?thesis by (intro exI [of _ acts] conjI run)
qed

text \<open>Texts without quotes and backslashes are copied as they are.\<close>

lemma esc_plain:
  assumes "wb \<notin> set s" and "wq \<notin> set s"
  shows "esc_text s 0 = s" and "esc_body s 0 = s"
  using assms by (induction s) auto

text \<open>
  The command line of plain credentials: the first quoting hangs beyond 195 units; from 193 units on it
  leaves no room for the second argument, which is then dropped without a trace.
\<close>

lemma script_params_plain:
  assumes "wb \<notin> set nu" and "wq \<notin> set nu" and "wb \<notin> set np" and "wq \<notin> set np"
  shows "(script_params nu np = None) \<longleftrightarrow>
    (length nu \<le> 192 \<and> 192 < length nu + length np) \<or> 195 < length nu"
proof -
  note plain = esc_plain [OF assms(1,2)] esc_plain [OF assms(3,4)]
  have first: "escapeShellArg nu [] (BUFLEN - 2) =
      (if length nu \<le> 195 then Some (wq # nu @ (if length nu < 195 then [wq] else [])) else None)"
    using escapeShellArg_exact [of "[]" "BUFLEN - 2" nu] by (simp add: BUFLEN_def Let_def plain)
  show ?thesis
  proof (cases "length nu \<le> 192")
    case True
    then have "escapeShellArg np (wq # nu @ [wq, 0x20]) (BUFLEN - 2) = None \<longleftrightarrow> 192 < length nu + length np"
      using escapeShellArg_exact [of "wq # nu @ [wq, 0x20]" "BUFLEN - 2" np]
      by (auto simp: BUFLEN_def Let_def plain)
    with True show ?thesis by (auto simp: script_params_def first split: option.splits)
  next
    case False
    then have "escapeShellArg np ((wq # nu @ (if length nu < 195 then [wq] else [])) @ [0x20]) (BUFLEN - 2) \<noteq> None"
      by (auto simp: escapeShellArg_def BUFLEN_def)
    with False show ?thesis by (auto simp: script_params_def first split: option.splits)
  qed
qed

text \<open>
  C35: the command line buffer has 200 units, and credentials that do not fit it can hang the agent. For
  a user name and a password without quotes and backslashes, which both can be converted (so that each
  has fewer than 200 units), \<open>launchRunscript\<close> never returns exactly when the user name has at most 192
  units and both together have more than 192, or the user name alone has more than 195.
\<close>

theorem launchRunscript_hangs:
  assumes "\<not> ss_done st"
    and "to_wide (se_utf8 env) user = Some nu" and "to_wide (se_utf8 env) password = Some np"
    and "wb \<notin> set nu" and "wq \<notin> set nu" and "wb \<notin> set np" and "wq \<notin> set np"
  shows "(launchRunscript env (Some user) (Some password) st = None) \<longleftrightarrow>
    (length nu \<le> 192 \<and> 192 < length nu + length np) \<or> 195 < length nu"
  using script_params_plain [OF assms(4-7)] assms(1-3)
  by (auto simp: launchRunscript_def split: option.splits)

theorem launchRunscript_hangs_witness:
  "launchRunscript example_script_env (Some ''ab'') (Some (replicate 195 (CHR ''x'')))
     \<lparr>ss_fails = 0, ss_done = False\<rparr> = None"
proof -
  have conv: "to_wide (se_utf8 example_script_env) ''ab'' = Some [0x61, 0x62]"
    by (simp add: to_wide_def example_script_env_def BUFLEN_def)
  have "to_wide (se_utf8 example_script_env) (replicate 195 (CHR ''x'')) = Some (replicate 195 0x78)"
    by (simp only: to_wide_def example_script_env_def BUFLEN_def map_replicate script_env.simps
        option.simps length_replicate) simp
  from launchRunscript_hangs [OF _ conv this, of "\<lparr>ss_fails = 0, ss_done = False\<rparr>"] show ?thesis by simp
qed

text \<open>The calls of the timer while no password has arrived.\<close>

definition script_tick_nopass :: "script_env \<Rightarrow> string option \<Rightarrow> script_state \<Rightarrow> script_state" where
  "script_tick_nopass env user st = fst (the (launchRunscript env user None st))"

text \<open>
  Without a password the script start is retried exactly twelve times; the thirteenth call
  gives up, and every later call only stops the timer.
\<close>

theorem launchRunscript_gives_up:
  "let st = (script_tick_nopass env user ^^ n) \<lparr>ss_fails = 0, ss_done = False\<rparr>
   in (ss_done st = (13 \<le> n)) \<and> ss_fails st = int (min n 13) \<and>
      (13 \<le> n \<longrightarrow> launchRunscript env user pw st = Some (st, [KillScriptTimer]))"
proof -
  have "(script_tick_nopass env user ^^ n) \<lparr>ss_fails = 0, ss_done = False\<rparr>
      = \<lparr>ss_fails = int (min n 13), ss_done = (13 \<le> n)\<rparr>"
  proof (induction n)
    case (Suc n)
    then show ?case
      by (auto simp: script_tick_nopass_def launchRunscript_def script_failure_def Let_def)
  qed simp
  then show ?thesis by (simp add: launchRunscript_def)
qed

theorem launchRunscript_gives_up_witness:
  "launchRunscript example_script_env None (Some ''x'')
     ((script_tick_nopass example_script_env None ^^ 13) \<lparr>ss_fails = 0, ss_done = False\<rparr>)
   = Some ((script_tick_nopass example_script_env None ^^ 13) \<lparr>ss_fails = 0, ss_done = False\<rparr>,
           [KillScriptTimer])"
  using launchRunscript_gives_up [of 13 example_script_env None "Some ''x''"]
  by (simp only: Let_def)

end
