(* ===== verification/WinresMain.thy ===== *)
theory WinresMain
  imports WinresMount WinresShell
begin

section \<open>The guest agent as a whole (run-virt/winres/src/winres.c)\<close>

text \<open>
  \<open>WinMain\<close> loads the paths and settings, reads the share file, starts the timers and runs the
  message loop; the timers mount the drives (\<open>setupNetworkDrives\<close>), set the resolution and start the
  scripts, the window procedure receives the password and reacts to screens being plugged in. After
  every message the loop erases the password once the drives and the scripts are done.

  The agent's state is the record \<open>agent\<close>, one message is an \<open>agent_event\<close>, and \<open>reachable\<close> are the
  states the message loop can get into. What the system answers to a message is part of the event.
  The calls the handlers make are kept: those for the drives in \<open>ms_log\<close>, those for screens, scripts
  and timers and the message boxes in \<open>ag_log\<close>.
\<close>

subsection \<open>Paths\<close>

datatype pvar = ProgramsPath | WindowsPath | DesktopPath

record path_api =
  pa_shell32 :: bool
  pa_folder :: "nat \<Rightarrow> wstring option"
  pa_special :: "nat \<Rightarrow> wstring option"
  pa_env :: "string \<Rightarrow> wstring option"

definition first_path :: "path_api \<Rightarrow> nat \<Rightarrow> string option \<Rightarrow> wstring option" where
  "first_path api csidl envName =
     (case (if pa_shell32 api then
              (case pa_folder api csidl of Some p \<Rightarrow> Some p | None \<Rightarrow> pa_special api csidl) else None) of
        Some p \<Rightarrow> Some p
      | None \<Rightarrow>
          (case envName of
             None \<Rightarrow> None
           | Some v \<Rightarrow>
               (case pa_env api v of
                  None \<Rightarrow> None
                | Some p \<Rightarrow> if 0 < length p \<and> length p \<le> MAX_PATH then Some p else None)))"

definition loadPath ::
  "path_api \<Rightarrow> pvar \<Rightarrow> nat \<Rightarrow> string option \<Rightarrow> string option \<Rightarrow> (pvar \<Rightarrow> wstring) \<Rightarrow> pvar \<Rightarrow> wstring" where
  "loadPath api dest csidl envName fallback vars =
     (case first_path api csidl envName of
        Some p \<Rightarrow> vars(dest := p)
      | None \<Rightarrow>
          (case fallback of
             Some f \<Rightarrow> vars(ProgramsPath := take MAX_PATH (wtext f))
           | None \<Rightarrow> vars(dest := [])))"

subsection \<open>Settings\<close>

record ini_file =
  ini_int :: "string \<Rightarrow> string \<Rightarrow> int \<Rightarrow> int"
  ini_str :: "string \<Rightarrow> string \<Rightarrow> string \<Rightarrow> string"

record agent_config =
  ac_paths :: "pvar \<Rightarrow> wstring"
  ac_temp :: wstring
  ac_logFile :: wstring
  ac_remap :: remap_flags
  ac_createMissing :: bool
  ac_remapMode :: int
  ac_homeDrive :: string
  ac_scriptFile :: wstring
  ac_passCreds :: bool
  ac_noHomeWarn :: bool

definition c_toupper :: "char \<Rightarrow> char" where
  "c_toupper c = (let n = of_char c :: nat in if 97 \<le> n \<and> n \<le> 122 then char_of (n - 32) else c)"

text \<open>The home drive: the first character of the setting, upper case, and a colon.\<close>

definition home_letter :: "string \<Rightarrow> string" where
  "home_letter s = (case take 99 s of [] \<Rightarrow> [] | c # r \<Rightarrow> [c_toupper c, CHR '':''])"

definition script_name :: "(string \<Rightarrow> wstring option) \<Rightarrow> string \<Rightarrow> wstring" where
  "script_name utf8 ext =
     (case utf8 (take 99 (''B:'' @ [CHR 0x5C] @ ''runscript'' @ ext)) of
        None \<Rightarrow> [] | Some w \<Rightarrow> if length w < 50 then w else [])"

text \<open>
  \<open>temp_api\<close> is the result of \<open>GetTempPathW\<close>, \<open>can_log\<close> says which log file can be opened.
\<close>

definition loadPaths ::
  "path_api \<Rightarrow> wstring option \<Rightarrow> (wstring \<Rightarrow> bool) \<Rightarrow> (string \<Rightarrow> wstring option) \<Rightarrow> ini_file \<Rightarrow> agent_config" where
  "loadPaths api temp_api can_log utf8 ini =
     (let v1 = loadPath api ProgramsPath 0x26 (Some ''ProgramFiles'')
                 (Some (''C:'' @ [CHR 0x5C] @ ''Program Files'')) (\<lambda>_. []);
          v2 = loadPath api WindowsPath 0x24 (Some ''windir'') (Some (''C:'' @ [CHR 0x5C] @ ''WINDOWS'')) v1;
          v3 = loadPath api DesktopPath 0x10 None None v2;
          temp = (case temp_api of
                    Some p \<Rightarrow> p
                  | None \<Rightarrow> (case pa_env api ''TEMP'' of
                              Some p \<Rightarrow> if 0 < length p \<and> length p \<le> MAX_PATH then p else []
                            | None \<Rightarrow> []));
          desk_log = take 299 (v3 DesktopPath @ wslash @ wtext ''openslx.log'');
          flag = (\<lambda>sec key def. ini_int ini sec key def \<noteq> 0)
      in \<lparr>ac_paths = v3, ac_temp = temp,
          ac_logFile = (if can_log desk_log then desk_log
                        else take 299 (temp @ wslash @ wtext ''openslx.log'')),
          ac_remap = \<lparr>rm_documents = flag ''remap'' ''documents'' 1,
                      rm_downloads = flag ''remap'' ''downloads'' 1,
                      rm_desktop = flag ''remap'' ''desktop'' 0,
                      rm_media = flag ''remap'' ''media'' 1,
                      rm_other = flag ''remap'' ''other'' 0\<rparr>,
          ac_createMissing = flag ''openslx'' ''createMissingRemap'' 1,
          ac_remapMode = ini_int ini ''openslx'' ''remapMode'' RM_NATIVE_FALLBACK,
          ac_homeDrive = home_letter (ini_str ini ''openslx'' ''homeDrive'' ''H:''),
          ac_scriptFile = script_name utf8 (ini_str ini ''openslx'' ''scriptExt'' []),
          ac_passCreds = flag ''openslx'' ''passCreds'' 0,
          ac_noHomeWarn = flag ''openslx'' ''noHomeWarn'' 0\<rparr>)"

subsection \<open>Small services\<close>

text \<open>The flags of \<open>SetThreadExecutionState\<close>; \<open>None\<close> when it is not called.\<close>

definition setPowerState :: "bool \<Rightarrow> bool \<Rightarrow> int \<Rightarrow> int \<Rightarrow> u32 option" where
  "setPowerState kernel32 has_fn major minor =
     (if \<not> kernel32 \<or> major < 5 \<or> (major = 5 \<and> minor < 1) then None
      else if \<not> has_fn then None
      else if 6 \<le> major then Some (0x80000000 OR 0x1 OR 0x2 OR 0x40)
      else Some (0x80000000 OR 0x1 OR 0x2))"

text \<open>
  The windows are searched one inside the other; \<open>find parent\<close> is the window found in \<open>parent\<close>,
  0 stands for NULL (and as a parent for the desktop). The result is the return code and the window
  whose text was set.
\<close>

definition setShutdownText ::
  "(string \<Rightarrow> nat) \<Rightarrow> (nat \<Rightarrow> string \<Rightarrow> nat) \<Rightarrow> (nat \<Rightarrow> bool) \<Rightarrow> int \<times> nat option" where
  "setShutdownText findTop findIn sent =
     (let hMenu = findTop ''DV2ControlHost''
      in if hMenu = 0 then (1, None)
         else let hPane = findIn hMenu ''DesktopLogoffPane''
         in if hMenu = 0 then (2, None)
            else let hButton = findIn hPane ''Button''
            in if hButton = 0 then (3, None)
               else (if sent hButton then 0 else 4, Some hButton))"

text \<open>The three steps to the volume control, and the calls made on it.\<close>

datatype sound_call = SetMasterVolumeLevelScalar nat | SetMute bool

definition muteSound :: "bool \<Rightarrow> bool \<Rightarrow> bool \<Rightarrow> bool \<Rightarrow> int \<times> sound_call list" where
  "muteSound enumerator endpoint activated bMute =
     (if \<not> enumerator then (1, [])
      else if \<not> endpoint then (2, [])
      else if \<not> activated then (3, [])
      else (0, [SetMasterVolumeLevelScalar 1, SetMute bMute]))"

datatype remote_call = SetSchemeSource | ClearCursor string | ParamOff nat | ParamOn nat | NoMinAnimate | ApplyCursors

definition cursor_keys :: "string list" where
  "cursor_keys = [''AppStarting'', ''Arrow'', ''Crosshair'', ''Hand'', ''Help'', ''IBeam'', ''No'', ''NWPen'',
     ''SizeAll'', ''SizeNESW'', ''SizeNS'', ''SizeNWSE'', ''SizeWE'', ''UpArrow'', ''Wait'']"

text \<open>The numbers of the system parameters, in the order of the tables of the source.\<close>

definition params_off :: "nat list" where
  "params_off = [0x1043, 0x1021, 0x1025, 0x1013, 0x1019, 0x1017, 0x1015, 0x1003, 0x1007, 0x101B, 0x1005]"

definition params_on :: "nat list" where
  "params_on = [0x1041]"

definition optimizeForRemote :: "bool \<Rightarrow> bool \<Rightarrow> int \<times> remote_call list" where
  "optimizeForRemote persistentMode regOk =
     (if persistentMode then (0, [])
      else if \<not> regOk then (1, [])
      else (0, [SetSchemeSource] @ map ClearCursor cursor_keys @ map ParamOff params_off
               @ map ParamOn params_on @ [NoMinAnimate, ApplyCursors]))"

subsection \<open>The agent's state and messages\<close>

datatype warning = WarnNotConfigured | WarnError | WarnUnknown

datatype agent_action =
    DisplayCall res_action
  | ScriptCall script_action
  | StopTimer nat
  | Warned warning

record agent =
  ag_creds :: creds
  ag_mount :: mount_state
  ag_script :: script_state
  ag_res :: res_state
  ag_tmrRes :: nat
  ag_mountDone :: bool
  ag_inProc :: bool
  ag_attempts :: int
  ag_closed :: bool
  ag_deleted :: bool
  ag_log :: "agent_action list"

text \<open>
  The messages: the three timers, data on the socket (with the error code of the message and what
  \<open>recv\<close> delivers), and a device change with the id of the timer the system hands out.
\<close>

datatype agent_event =
    TimerDrives netcalls bool
  | TimerScript
  | TimerRes nat display
  | SockData int "byte list option"
  | DeviceChange nat nat
  | OtherMessage

record agent_env =
  ae_mount :: mount_env
  ae_script :: script_env
  ae_res :: res_settings
  ae_noHomeWarn :: bool

subsection \<open>Setting up the drives\<close>

definition wants_remap :: "agent_env \<Rightarrow> bool" where
  "wants_remap env \<longleftrightarrow>
     me_remapMode (ae_mount env) = RM_NATIVE_FALLBACK \<or> me_remapMode (ae_mount env) = RM_VMWARE"

definition home_warning :: "agent_env \<Rightarrow> agent \<Rightarrow> warning option" where
  "home_warning env s =
     (if ae_noHomeWarn env then None
      else if ms_folderStatus (ag_mount s) \<noteq> FS_OK \<and>
              (case shost (ag_creds s) of None \<Rightarrow> False | Some h \<Rightarrow> take 1 h = ''-'') \<and>
              (case sport (ag_creds s) of None \<Rightarrow> False | Some p \<Rightarrow> take 1 p = ''-'')
      then Some WarnNotConfigured
      else if ms_folderStatus (ag_mount s) = FS_ERROR then Some WarnError
      else if ms_folderStatus (ag_mount s) = FS_UNKNOWN then Some WarnUnknown
      else None)"

definition remap_home :: "agent_env \<Rightarrow> agent \<Rightarrow> agent" where
  "remap_home env s =
     s\<lparr>ag_mount := remapViaSharedFolder (ae_mount env) (ag_creds s) (ag_mount s)\<rparr>"

text \<open>
  The end of \<open>setupNetworkDrives\<close>: the timer is stopped and \<open>bInProc\<close> stays set. \<open>early\<close> says
  whether fewer than 30 seconds have passed since the start.
\<close>

definition finish_drives :: "agent_env \<Rightarrow> agent \<Rightarrow> agent \<times> warning option" where
  "finish_drives env s = (let s' = s\<lparr>ag_mountDone := True\<rparr> in (s', home_warning env s'))"

definition finish_remap :: "agent_env \<Rightarrow> agent \<Rightarrow> agent \<times> warning option" where
  "finish_remap env s =
     finish_drives env
       (if ms_folderStatus (ag_mount s) \<noteq> FS_OK \<and> wants_remap env then remap_home env s else s)"

definition setupNetworkDrives ::
  "agent_env \<Rightarrow> netcalls \<Rightarrow> bool \<Rightarrow> agent \<Rightarrow> agent \<times> warning option" where
  "setupNetworkDrives env nc early s0 =
     (if ag_inProc s0 \<or> ag_mountDone s0 then (s0, None)
      else let s = s0\<lparr>ag_inProc := True\<rparr>
      in if \<not> shareFileOk (ag_creds s)
         then finish_drives env (if wants_remap env then remap_home env s else s)
         else case queryPasswordDaemon nc (ag_creds s) of (ret, g, dgram) \<Rightarrow>
           let s1 = s\<lparr>ag_creds := g\<rparr>
           in if ret \<noteq> 0 then
                (let s2 = s1\<lparr>ag_attempts := ag_attempts s1 + 1\<rparr>
                 in if ag_attempts s2 < 10 then (s2\<lparr>ag_inProc := False\<rparr>, None) else finish_remap env s2)
              else case mountNetworkShares (ae_mount env) (ag_creds s1, ag_mount s1) of (ok, g', m') \<Rightarrow>
                (let s3 = s1\<lparr>ag_creds := g', ag_mount := m'\<rparr>
                 in if \<not> ok \<and> early
                    then (let s4 = s3\<lparr>ag_attempts := ag_attempts s3 + 1\<rparr>
                          in if ag_attempts s4 < 15 then (s4\<lparr>ag_inProc := False\<rparr>, None)
                             else finish_remap env s4)
                    else finish_remap env s3))"

subsection \<open>The window procedure and the message loop\<close>

definition socket_data :: "agent_env \<Rightarrow> byte list option \<Rightarrow> agent \<Rightarrow> agent" where
  "socket_data env ret s =
     (let live = (if sockOpen (ag_creds s) \<and> \<not> ag_closed s then ret else None)
      in case udpReceived (ae_mount env) live (ag_creds s, ag_mount s) of
        (g, m) \<Rightarrow> s\<lparr>ag_creds := g, ag_mount := m,
                    ag_closed := ag_closed s \<or> snd (udpReceived_pass live (ag_creds s))\<rparr>)"

definition slxWindowProc :: "agent_env \<Rightarrow> agent \<Rightarrow> agent_event \<Rightarrow> agent" where
  "slxWindowProc env s ev =
     (case ev of
        SockData errorCode ret \<Rightarrow> if errorCode = 0 then socket_data env ret s else s
      | DeviceChange wParam newTimer \<Rightarrow>
          if wParam = 0x8000 \<or> wParam = 0x8004 then s\<lparr>ag_tmrRes := newTimer\<rparr> else s
      | _ \<Rightarrow> s)"

text \<open>The drive timer; the warning is the message box shown at the end.\<close>

definition drive_timer :: "agent_env \<Rightarrow> netcalls \<Rightarrow> bool \<Rightarrow> agent \<Rightarrow> agent" where
  "drive_timer env nc early s =
     (case setupNetworkDrives env nc early s of
        (s', None) \<Rightarrow> s'
      | (s', Some w) \<Rightarrow> s'\<lparr>ag_log := ag_log s' @ [Warned w]\<rparr>)"

definition script_timer :: "agent_env \<Rightarrow> agent \<Rightarrow> agent option" where
  "script_timer env s =
     (case launchRunscript (ae_script env) (suser (ag_creds s)) (spass (ag_creds s)) (ag_script s) of
        None \<Rightarrow> None | Some (st, acts) \<Rightarrow> Some (s\<lparr>ag_script := st, ag_log := ag_log s @ map ScriptCall acts\<rparr>))"

definition res_timer :: "agent_env \<Rightarrow> nat \<Rightarrow> display \<Rightarrow> agent \<Rightarrow> agent option" where
  "res_timer env idEvent d s =
     (case tmrResolution (ae_res env) d idEvent (ag_res s, ag_tmrRes s) of
        None \<Rightarrow> None
      | Some ((st, t), killed, acts) \<Rightarrow>
          Some (s\<lparr>ag_res := st, ag_tmrRes := t,
                  ag_log := ag_log s @ map DisplayCall acts @ map StopTimer killed\<rparr>))"

definition dispatch :: "agent_env \<Rightarrow> agent \<Rightarrow> agent_event \<Rightarrow> agent option" where
  "dispatch env s ev =
     (case ev of
        TimerDrives nc early \<Rightarrow> Some (drive_timer env nc early s)
      | TimerScript \<Rightarrow> script_timer env s
      | TimerRes idEvent d \<Rightarrow> res_timer env idEvent d s
      | _ \<Rightarrow> Some (slxWindowProc env s ev))"

text \<open>The check after every message. Overwriting the text with zeros leaves the empty string.\<close>

definition erase_password :: "agent \<Rightarrow> agent" where
  "erase_password s =
     (if \<not> ag_deleted s \<and> ag_mountDone s \<and> ss_done (ag_script s) \<and> spass (ag_creds s) \<noteq> None
      then s\<lparr>ag_creds := (ag_creds s)\<lparr>spass := Some []\<rparr>, ag_deleted := True\<rparr>
      else s)"

definition agent_step :: "agent_env \<Rightarrow> agent \<Rightarrow> agent_event \<Rightarrow> agent option" where
  "agent_step env s ev = map_option erase_password (dispatch env s ev)"

text \<open>
  The state when the message loop starts: \<open>drives_timer\<close>, \<open>script_timer_ok\<close> and \<open>res_id\<close> are the
  results of the calls of \<open>SetTimer\<close>.
\<close>

definition agent_start ::
  "agent_env \<Rightarrow> (string \<Rightarrow> string option) \<Rightarrow> string option \<Rightarrow> bool \<Rightarrow> bool \<Rightarrow> nat \<Rightarrow> agent" where
  "agent_start env resolve content drives_timer script_timer_ok res_id =
     (let g = readShareFile resolve content creds_init;
          mode = me_remapMode (ae_mount env)
      in \<lparr>ag_creds = g,
          ag_mount = mount_init\<lparr>ms_folderStatus := (if mode = RM_NONE then FS_OK else FS_UNKNOWN)\<rparr>,
          ag_script = \<lparr>ss_fails = 0, ss_done = \<not> script_timer_ok\<rparr>,
          ag_res = res_init, ag_tmrRes = res_id,
          ag_mountDone = \<not> ((shareFileOk g \<or> mode \<noteq> RM_NONE) \<and> drives_timer),
          ag_inProc = False, ag_attempts = 0, ag_closed = False, ag_deleted = False,
          ag_log = []\<rparr>)"

inductive reachable :: "agent_env \<Rightarrow> agent \<Rightarrow> bool" for env where
  start: "reachable env (agent_start env resolve content dt st rid)"
| step: "reachable env s \<Longrightarrow> agent_step env s ev = Some s' \<Longrightarrow> reachable env s'"

subsection \<open>Invariants of the message loop\<close>

inductive_cases reachable_elim: "reachable env s"

lemma mountNetworkShares_creds:
  assumes "mountNetworkShares env (g, m) = (ok, g', m')"
  shows "spass g' = spass g \<and> sockOpen g' = sockOpen g \<and> shareFileOk g' = shareFileOk g \<and>
    shost g' = shost g \<and> sport g' = sport g \<and> suser g' = suser g \<and> bkey1 g' = bkey1 g \<and> bkey2 g' = bkey2 g"
  using assms by (auto simp: mountNetworkShares_def Let_def split: if_splits prod.splits)

lemma creds_ok_same:
  assumes "creds_ok g"
    and "spass g' = spass g \<and> sockOpen g' = sockOpen g \<and> shareFileOk g' = shareFileOk g \<and>
      shost g' = shost g \<and> sport g' = sport g \<and> suser g' = suser g \<and> bkey1 g' = bkey1 g \<and> bkey2 g' = bkey2 g"
  shows "creds_ok g'"
  using assms by (simp add: creds_ok_def keys_ok_def)

text \<open>
  Once there is a password the socket is not open any more, so it cannot be replaced; an erased
  password stays erased.
\<close>

definition agent_ok :: "agent \<Rightarrow> bool" where
  "agent_ok s \<longleftrightarrow>
     creds_ok (ag_creds s) \<and>
     (spass (ag_creds s) \<noteq> None \<longrightarrow> \<not> sockOpen (ag_creds s) \<or> ag_closed s) \<and>
     (ag_deleted s \<longrightarrow> spass (ag_creds s) = Some [])"

text \<open>Only the log tells the drive timer from \<open>setupNetworkDrives\<close>.\<close>

lemma drive_timer_result:
  obtains l where "drive_timer env nc early s = (fst (setupNetworkDrives env nc early s))\<lparr>ag_log := l\<rparr>"
proof -
  obtain s' w where r: "setupNetworkDrives env nc early s = (s', w)" by fastforce
  show ?thesis
  proof (cases w)
    case None
    with r show ?thesis by (intro that [of "ag_log s'"]) (simp add: drive_timer_def)
  next
    case (Some x)
    with r show ?thesis by (intro that [of "ag_log s' @ [Warned x]"]) (simp add: drive_timer_def)
  qed
qed

lemma agent_ok_log [simp]: "agent_ok (s\<lparr>ag_log := l\<rparr>) = agent_ok s"
  by (simp add: agent_ok_def)

lemma queryPasswordDaemon_spass:
  assumes "queryPasswordDaemon nc g = (r, g', dg)"
  shows "spass g' = spass g" and "spass g \<noteq> None \<Longrightarrow> g' = g"
  using assms by (auto simp: queryPasswordDaemon_def Let_def split: if_splits)

lemma finish_fields [simp]:
  "ag_creds (fst (finish_remap env s)) = ag_creds s" "ag_closed (fst (finish_remap env s)) = ag_closed s"
  "ag_deleted (fst (finish_remap env s)) = ag_deleted s" "ag_mountDone (fst (finish_remap env s))"
  "ag_creds (fst (finish_drives env s)) = ag_creds s" "ag_closed (fst (finish_drives env s)) = ag_closed s"
  "ag_deleted (fst (finish_drives env s)) = ag_deleted s" "ag_mountDone (fst (finish_drives env s))"
  "ag_creds (remap_home env s) = ag_creds s" "ag_closed (remap_home env s) = ag_closed s"
  "ag_deleted (remap_home env s) = ag_deleted s"
  by (simp_all add: finish_remap_def finish_drives_def remap_home_def Let_def)

lemma setupNetworkDrives_creds:
  obtains (none) "ag_creds (fst (setupNetworkDrives env nc early s)) = ag_creds s"
  | (query) ret g dg where "queryPasswordDaemon nc (ag_creds s) = (ret, g, dg)"
      "ag_creds (fst (setupNetworkDrives env nc early s)) = g"
  | (mounted) g dg ok g' m' where "queryPasswordDaemon nc (ag_creds s) = (0, g, dg)"
      "mountNetworkShares (ae_mount env) (g, ag_mount s) = (ok, g', m')"
      "ag_creds (fst (setupNetworkDrives env nc early s)) = g'"
proof (cases "ag_inProc s \<or> ag_mountDone s \<or> \<not> shareFileOk (ag_creds s)")
  case True
  then show ?thesis by (intro none) (auto simp: setupNetworkDrives_def Let_def)
next
  case False
  obtain ret g dg where q: "queryPasswordDaemon nc (ag_creds s) = (ret, g, dg)" by (metis prod_cases3)
  obtain ok g' m' where mt: "mountNetworkShares (ae_mount env) (g, ag_mount s) = (ok, g', m')"
    by (metis prod_cases3)
  show ?thesis
  proof (cases "ret = 0")
    case True
    with False q mt show ?thesis
      by (intro mounted [of g dg ok g' m']) (auto simp: setupNetworkDrives_def Let_def)
  next
    case nz: False
    with False q show ?thesis by (intro query [of ret g dg]) (auto simp: setupNetworkDrives_def Let_def)
  qed
qed

lemma setupNetworkDrives_flags:
  "ag_closed (fst (setupNetworkDrives env nc early s)) = ag_closed s"
  "ag_deleted (fst (setupNetworkDrives env nc early s)) = ag_deleted s"
  by (auto simp: setupNetworkDrives_def Let_def split: prod.splits)

lemma setupNetworkDrives_ok:
  assumes "agent_ok s"
  shows "agent_ok (fst (setupNetworkDrives env nc early s))"
proof -
  have q: "creds_ok g \<and> spass g = spass (ag_creds s) \<and> (spass (ag_creds s) \<noteq> None \<longrightarrow> g = ag_creds s)"
    if "queryPasswordDaemon nc (ag_creds s) = (ret, g, dg)" for ret g dg
    using that assms queryPasswordDaemon_spass [OF that] queryPasswordDaemon_creds_ok [of "ag_creds s" nc]
    by (auto simp: agent_ok_def)
  show ?thesis
  proof (cases rule: setupNetworkDrives_creds [of env nc early s])
    case none
    with assms show ?thesis by (simp add: agent_ok_def setupNetworkDrives_flags)
  next
    case (query ret g dg)
    with assms q [OF query(1)] show ?thesis by (auto simp: agent_ok_def setupNetworkDrives_flags)
  next
    case (mounted g dg ok g' m')
    note same = mountNetworkShares_creds [OF mounted(2)]
    from creds_ok_same [OF _ same] q [OF mounted(1)] same assms mounted(3) show ?thesis
      by (auto simp: agent_ok_def setupNetworkDrives_flags)
  qed
qed

lemma socket_data_ok:
  assumes "agent_ok s"
  shows "agent_ok (socket_data env ret s)"
proof (cases "sockOpen (ag_creds s) \<and> \<not> ag_closed s")
  case False
  then show ?thesis
    using assms by (auto simp: socket_data_def udpReceived_def udpReceived_pass_def agent_ok_def)
next
  case True
  with assms have none: "spass (ag_creds s) = None" "\<not> ag_deleted s" by (auto simp: agent_ok_def)
  obtain g1 got where r: "udpReceived_pass ret (ag_creds s) = (g1, got)" by fastforce
  obtain ok g' m' where mt: "mountNetworkShares (ae_mount env) (g1, ag_mount s) = (ok, g', m')"
    by (metis prod_cases3)
  have ok: "creds_ok g1"
    using udpReceived_pass_creds_ok [of "ag_creds s" ret] assms r by (simp add: agent_ok_def)
  have "\<not> got \<longrightarrow> spass g1 = None"
    using r none by (auto simp: udpReceived_pass_def Let_def split: option.splits if_splits)
  with True none r mt ok creds_ok_same [OF ok mountNetworkShares_creds [OF mt]]
  show ?thesis by (auto simp: socket_data_def udpReceived_def agent_ok_def)
qed

lemma dispatch_ok:
  assumes "agent_ok s" and "dispatch env s ev = Some s'"
  shows "agent_ok s'"
  using assms(2)
proof (cases ev)
  case (TimerDrives nc early)
  obtain l where "drive_timer env nc early s = (fst (setupNetworkDrives env nc early s))\<lparr>ag_log := l\<rparr>"
    by (rule drive_timer_result)
  with assms TimerDrives show ?thesis by (auto simp: dispatch_def setupNetworkDrives_ok)
next
  case TimerScript
  with assms show ?thesis
    by (auto simp: dispatch_def script_timer_def agent_ok_def split: option.splits)
next
  case (TimerRes i d)
  with assms show ?thesis
    by (auto simp: dispatch_def res_timer_def agent_ok_def split: option.splits)
next
  case (SockData e r)
  with assms socket_data_ok [of s env r] show ?thesis by (auto simp: dispatch_def slxWindowProc_def)
next
  case (DeviceChange w t)
  with assms show ?thesis by (auto simp: dispatch_def slxWindowProc_def agent_ok_def split: if_splits)
next
  case OtherMessage
  with assms show ?thesis by (auto simp: dispatch_def slxWindowProc_def)
qed

lemma creds_ok_spass:
  assumes "creds_ok g"
  shows "creds_ok (g\<lparr>spass := Some p\<rparr>)"
proof -
  have "keys_ok (g\<lparr>spass := Some p\<rparr>) = keys_ok g" by (simp add: keys_ok_def)
  with assms show ?thesis by (simp add: creds_ok_def)
qed

lemma erase_password_ok: "agent_ok s \<Longrightarrow> agent_ok (erase_password s)"
  using creds_ok_spass [of "ag_creds s" "[]"] by (auto simp: erase_password_def agent_ok_def)

lemma agent_start_ok: "agent_ok (agent_start env resolve content dt st rid)"
proof -
  have "creds_ok (readShareFile resolve content creds_init)"
    by (rule readShareFile_creds_ok [OF creds_ok_init])
  moreover have "\<not> sockOpen (readShareFile resolve content creds_init)"
    by (auto simp: readShareFile_def creds_init_def Let_def split: option.splits prod.splits)
  ultimately show ?thesis by (simp add: agent_start_def agent_ok_def Let_def)
qed

definition erased :: "agent \<Rightarrow> bool" where
  "erased s \<longleftrightarrow> (ag_mountDone s \<and> ss_done (ag_script s) \<longrightarrow>
     spass (ag_creds s) = None \<or> spass (ag_creds s) = Some [])"

lemma reachable_ok: "reachable env s \<Longrightarrow> agent_ok s \<and> erased s"
proof (induction rule: reachable.induct)
  case (start resolve content dt st rid)
  have "spass (readShareFile resolve content creds_init) \<in> {None, Some []}"
    by (auto simp: readShareFile_def creds_init_def Let_def split: option.splits prod.splits)
  then show ?case using agent_start_ok by (auto simp: erased_def agent_start_def Let_def)
next
  case (step s ev s')
  then obtain s1 where s1: "dispatch env s ev = Some s1" "s' = erase_password s1"
    by (auto simp: agent_step_def)
  with step dispatch_ok have ok1: "agent_ok s1" by blast
  have "agent_ok s'" using erase_password_ok [OF ok1] s1(2) by simp
  moreover have "erased s'"
    using ok1 unfolding s1(2) by (auto simp: erased_def erase_password_def agent_ok_def)
  ultimately show ?case ..
qed

text \<open>
  C4: in every state the message loop can reach, with any share file, any answers of the system
  and any interleaving of timers, datagrams and device changes: once the drives and the scripts are
  done, the password is gone from the agent's password variable.
\<close>

theorem password_erased_when_done:
  assumes "reachable env s" and "ag_mountDone s" and "ss_done (ag_script s)"
  shows "spass (ag_creds s) = None \<or> spass (ag_creds s) = Some []"
  using reachable_ok [OF assms(1)] assms(2,3) by (simp add: erased_def)

definition example_agent_env :: agent_env where
  "example_agent_env = \<lparr>ae_mount = example_mount_env\<lparr>me_remapMode := RM_NONE\<rparr>, ae_script = example_script_env,
     ae_res = example_settings, ae_noHomeWarn = False\<rparr>"

theorem password_erased_when_done_witness:
  "spass (ag_creds (agent_start example_agent_env (\<lambda>_. None) None True False 0)) = None \<or>
   spass (ag_creds (agent_start example_agent_env (\<lambda>_. None) None True False 0)) = Some []"
  by (rule password_erased_when_done [OF reachable.start])
     (simp_all add: agent_start_def example_agent_env_def readShareFile_def creds_init_def)

subsection \<open>The drives are given up in time\<close>

fun agent_run :: "agent_env \<Rightarrow> agent \<Rightarrow> agent_event list \<Rightarrow> agent option" where
  "agent_run env s [] = Some s"
| "agent_run env s (ev # evs) =
     (case agent_step env s ev of None \<Rightarrow> None | Some s' \<Rightarrow> agent_run env s' evs)"

lemma agent_run_run_opt: "agent_run env s evs = run_opt (agent_step env) s evs"
  by (induction evs arbitrary: s) (simp_all split: option.split)

interpretation reachable_run: partial_machine "agent_step env" "reachable env"
  by unfold_locales (rule reachable.step)

fun is_drive_tick :: "agent_event \<Rightarrow> bool" where
  "is_drive_tick (TimerDrives nc early) = True"
| "is_drive_tick ev = False"

text \<open>While the drives are not done, \<open>bInProc\<close> is clear between messages and every tick is counted.\<close>

definition ticking :: "int \<Rightarrow> agent \<Rightarrow> bool" where
  "ticking n s \<longleftrightarrow> ag_mountDone s \<or> (\<not> ag_inProc s \<and> n \<le> ag_attempts s \<and> ag_attempts s < 15)"

lemma ticking_log [simp]: "ticking n (s\<lparr>ag_log := l\<rparr>) = ticking n s"
  by (simp add: ticking_def)

lemma setupNetworkDrives_ticking:
  assumes "ticking n s"
  shows "ticking (n + 1) (fst (setupNetworkDrives env nc early s))"
proof (cases "ag_mountDone s")
  case True
  then show ?thesis by (simp add: setupNetworkDrives_def ticking_def)
next
  case False
  with assms have "\<not> ag_inProc s" "n \<le> ag_attempts s" by (auto simp: ticking_def)
  with False show ?thesis
    by (auto simp: setupNetworkDrives_def ticking_def Let_def split: prod.splits)
qed

lemma socket_data_fields:
  "ag_mountDone (socket_data env r s) = ag_mountDone s" "ag_inProc (socket_data env r s) = ag_inProc s"
  "ag_attempts (socket_data env r s) = ag_attempts s"
  by (auto simp: socket_data_def Let_def split: prod.splits)

lemma erase_password_fields:
  "ag_mountDone (erase_password s) = ag_mountDone s" "ag_inProc (erase_password s) = ag_inProc s"
  "ag_attempts (erase_password s) = ag_attempts s"
  by (auto simp: erase_password_def)

lemma dispatch_ticking:
  assumes "ticking n s" and "dispatch env s ev = Some s'"
  shows "ticking (if is_drive_tick ev then n + 1 else n) s'"
proof (cases ev)
  case (TimerDrives nc early)
  obtain l where "drive_timer env nc early s = (fst (setupNetworkDrives env nc early s))\<lparr>ag_log := l\<rparr>"
    by (rule drive_timer_result)
  with assms TimerDrives setupNetworkDrives_ticking show ?thesis by (auto simp: dispatch_def)
next
  case TimerScript
  with assms show ?thesis
    by (auto simp: dispatch_def script_timer_def ticking_def split: option.splits)
next
  case (TimerRes i d)
  with assms show ?thesis
    by (auto simp: dispatch_def res_timer_def ticking_def split: option.splits)
next
  case (SockData e r)
  with assms show ?thesis
    by (auto simp: dispatch_def slxWindowProc_def ticking_def socket_data_fields split: if_splits)
next
  case (DeviceChange w t)
  with assms show ?thesis by (auto simp: dispatch_def slxWindowProc_def ticking_def split: if_splits)
next
  case OtherMessage
  with assms show ?thesis by (auto simp: dispatch_def slxWindowProc_def)
qed

lemma agent_run_ticking:
  "ticking n s \<Longrightarrow> agent_run env s evs = Some s' \<Longrightarrow>
     ticking (n + int (length (filter is_drive_tick evs))) s'"
proof (induction evs arbitrary: s n)
  case (Cons ev evs)
  from Cons.prems(2) obtain s1 where s1: "agent_step env s ev = Some s1" "agent_run env s1 evs = Some s'"
    by (auto split: option.splits)
  then obtain s0 where "dispatch env s ev = Some s0" "s1 = erase_password s0"
    by (auto simp: agent_step_def)
  with dispatch_ticking [OF Cons.prems(1)] have "ticking (if is_drive_tick ev then n + 1 else n) s1"
    by (simp add: ticking_def erase_password_fields)
  from Cons.IH [OF this s1(2)] show ?case by (auto split: if_splits simp: algebra_simps)
qed simp

text \<open>
  C10: the drive timer is not retried forever. After at most fifteen of its ticks, whatever
  messages come in between and whatever the system and the password daemon answer, the drives are
  done: mounted, or given up.
\<close>

theorem drives_done_after_15_ticks:
  assumes "agent_run env (agent_start env resolve content dt st rid) evs = Some s"
    and "15 \<le> length (filter is_drive_tick evs)"
  shows "ag_mountDone s"
proof -
  have "ticking 0 (agent_start env resolve content dt st rid)"
    by (simp add: ticking_def agent_start_def Let_def)
  from agent_run_ticking [OF this assms(1)] assms(2) show ?thesis by (auto simp: ticking_def)
qed

theorem drives_done_after_15_ticks_witness:
  "\<exists>s. agent_run example_agent_env (agent_start example_agent_env (\<lambda>_. None) (Some example_share_file) True False 0)
      (replicate 15 (TimerDrives \<lparr>nc_window = True, nc_wsa = 0, nc_socket = True, nc_sent = 16\<rparr> True)) = Some s \<and>
    ag_mountDone s"
proof -
  let ?ev = "TimerDrives \<lparr>nc_window = True, nc_wsa = 0, nc_socket = True, nc_sent = 16\<rparr> True"
  have total: "\<exists>s'. agent_run env s (replicate n ?ev) = Some s'" for env s n
    by (induction n arbitrary: s) (simp_all add: agent_step_def dispatch_def)
  then obtain s where "agent_run example_agent_env
      (agent_start example_agent_env (\<lambda>_. None) (Some example_share_file) True False 0) (replicate 15 ?ev) = Some s"
    by blast
  with drives_done_after_15_ticks [OF this] show ?thesis by simp
qed

subsection \<open>Copies and fallbacks\<close>

text \<open>
  Along every run, the password of a connection is the empty one, one that the drives bring along, or
  the one in the static buffer of \<open>mount\<close>. The passwords of the drives do not change after the share
  file has been read.
\<close>

definition drive_passwords :: "agent \<Rightarrow> string option list" where
  "drive_passwords s = Some [] # map nd_pass (drives (ag_creds s))"

abbreviation copy_held :: "agent_env \<Rightarrow> agent \<Rightarrow> bool" where
  "copy_held env s \<equiv> held (ae_mount env) (Some [] # map nd_pass (drives (ag_creds s))) (ag_mount s)"

lemma mount_drive_pass: "mount_drive env g a d m = (ok, d', m') \<Longrightarrow> nd_pass d' = nd_pass d"
  by (auto simp: mount_drive_def Let_def split: if_splits prod.splits)

lemma mount_loop_pass: "mount_loop env g a ds m = (n, ds', m') \<Longrightarrow> map nd_pass ds' = map nd_pass ds"
  by (induction ds arbitrary: m n ds' m') (auto split: if_splits prod.splits dest: mount_drive_pass)

lemma mountNetworkShares_pass:
  "mountNetworkShares env (g, m) = (ok, g', m') \<Longrightarrow> map nd_pass (drives g') = map nd_pass (drives g)"
  by (auto simp: mountNetworkShares_def Let_def dest: mount_loop_pass split: if_splits prod.splits)

lemma queryPasswordDaemon_drives: "queryPasswordDaemon nc g = (r, g', dg) \<Longrightarrow> drives g' = drives g"
  by (auto simp: queryPasswordDaemon_def Let_def split: if_splits)

lemma udpReceived_pass_drives: "udpReceived_pass r g = (g', got) \<Longrightarrow> drives g' = drives g"
  by (auto simp: udpReceived_pass_def Let_def split: option.splits if_splits)

lemma list_all_own: "list_all (\<lambda>d. nd_pass d \<in> set (x # map nd_pass ds)) ds"
  by (simp add: list_all_iff)

lemma shares_held:
  assumes "held e (Some [] # map nd_pass (drives g)) m" and "mountNetworkShares e (g, m) = (ok, g', m')"
  shows "held e (Some [] # map nd_pass (drives g')) m'"
proof -
  have "held e (Some [] # map nd_pass (drives g)) (snd (snd (mountNetworkShares e (g, m))))"
    by (rule hold.shares_keep) (simp_all only: fst_conv snd_conv list_all_own assms(1))
  then show ?thesis by (simp only: assms(2) snd_conv mountNetworkShares_pass [OF assms(2)])
qed

lemma remap_home_held:
  "held (ae_mount env) (Some [] # own) (ag_mount s) \<Longrightarrow>
     held (ae_mount env) (Some [] # own) (ag_mount (remap_home env s))"
  by (simp add: remap_home_def hold.remap_keep)

lemma finish_held:
  assumes "held (ae_mount env) (Some [] # own) (ag_mount s)"
  shows "held (ae_mount env) (Some [] # own) (ag_mount (fst (finish_drives env s)))"
    and "held (ae_mount env) (Some [] # own) (ag_mount (fst (finish_remap env s)))"
  using assms remap_home_held [OF assms] by (simp_all add: finish_drives_def finish_remap_def Let_def)

lemma setupNetworkDrives_held:
  assumes "copy_held env s"
  shows "copy_held env (fst (setupNetworkDrives env nc early s))"
proof -
  obtain ret g dg where q: "queryPasswordDaemon nc (ag_creds s) = (ret, g, dg)" by (metis prod_cases3)
  obtain ok g' m' where mt: "mountNetworkShares (ae_mount env) (g, ag_mount s) = (ok, g', m')" by (metis prod_cases3)
  have g: "held (ae_mount env) (Some [] # map nd_pass (drives g)) (ag_mount s)"
    using assms queryPasswordDaemon_drives [OF q] by simp
  note m' = shares_held [OF g mt]
  show ?thesis
    by (auto simp: setupNetworkDrives_def q mt Let_def assms g m' intro!: finish_held remap_home_held)
qed

lemma socket_data_held:
  assumes "copy_held env s"
  shows "copy_held env (socket_data env ret s)"
proof -
  let ?r = "if sockOpen (ag_creds s) \<and> \<not> ag_closed s then ret else None"
  obtain g1 got where r: "udpReceived_pass ?r (ag_creds s) = (g1, got)" by fastforce
  obtain ok g' m' where mt: "mountNetworkShares (ae_mount env) (g1, ag_mount s) = (ok, g', m')" by (metis prod_cases3)
  have g1: "held (ae_mount env) (Some [] # map nd_pass (drives g1)) (ag_mount s)"
    using assms udpReceived_pass_drives [OF r] by simp
  from shares_held [OF this mt] g1 show ?thesis
    by (simp add: socket_data_def udpReceived_def Let_def r mt)
qed

lemma dispatch_held:
  assumes "copy_held env s" and "dispatch env s ev = Some s'"
  shows "copy_held env s'"
proof (cases ev)
  case (TimerDrives nc early)
  obtain l where "drive_timer env nc early s = (fst (setupNetworkDrives env nc early s))\<lparr>ag_log := l\<rparr>"
    by (rule drive_timer_result)
  with assms TimerDrives setupNetworkDrives_held [OF assms(1), of nc early] show ?thesis
    by (auto simp: dispatch_def)
next
  case (SockData e r)
  with assms socket_data_held show ?thesis by (auto simp: dispatch_def slxWindowProc_def split: if_splits)
qed (use assms in \<open>auto simp: dispatch_def script_timer_def res_timer_def slxWindowProc_def
  split: option.splits if_splits\<close>)

lemma reachable_held: "reachable env s \<Longrightarrow> copy_held env s"
proof (induction rule: reachable.induct)
  case (step s ev s')
  then show ?case
    using dispatch_held [of env s ev] by (auto simp: agent_step_def erase_password_def)
qed (simp add: agent_start_def held_def mount_init_def Let_def)

text \<open>
  C34: erasing the password leaves a copy. In every state the message loop can reach in which the
  drives and the scripts are done: if a connection was ever asked for with a password that is not
  empty and not one of the drives' own, that is with what \<open>mount\<close> has converted of the user's password,
  then the password variable is erased, and the password of that connection is still there in clear
  text in the static buffer of \<open>mount\<close>.
\<close>

theorem erased_password_copy_remains:
  assumes "reachable env s" and "ag_mountDone s" and "ss_done (ag_script s)"
    and "Connect letter path printer w u \<in> set (ms_log (ag_mount s))" and "w \<noteq> []"
    and "Some w \<notin> set (map (wide_field (ae_mount env) MBUFLEN) (drive_passwords s))"
  shows "(spass (ag_creds s) = None \<or> spass (ag_creds s) = Some []) \<and> ms_npass (ag_mount s) = w"
proof -
  have "from_cache (ae_mount env) (drive_passwords s) (ms_npass (ag_mount s)) (Connect letter path printer w u)"
    using reachable_held [OF assms(1)] assms(4)
    by (simp only: held_def drive_passwords_def list_all_iff)
  with assms(5,6) have "ms_npass (ag_mount s) = w" by simp
  with reachable_ok [OF assms(1)] assms(2,3) show ?thesis by (simp add: erased_def)
qed

text \<open>The query, the answer with the password, and the tick that maps the home directory.\<close>

definition example_remap_env :: agent_env where
  "example_remap_env = example_agent_env\<lparr>ae_mount := example_mount_env\<rparr>"

definition example_copy_events :: "agent_event list" where
  "example_copy_events =
     (let nc = \<lparr>nc_window = True, nc_wsa = 0, nc_socket = True, nc_sent = 16\<rparr>
      in [TimerDrives nc True, SockData 0 (Some [0, 2, 0x80, 0x97]), TimerDrives nc True])"

definition example_copy_run :: "agent option" where
  "example_copy_run = agent_run example_remap_env
     (agent_start example_remap_env (\<lambda>_. None) (Some example_share_file) True False 0) example_copy_events"

lemma example_copy_run_result:
  "case example_copy_run of None \<Rightarrow> False
   | Some s \<Rightarrow> ag_mountDone s \<and> ss_done (ag_script s) \<and>
       (let w = wtext ''pw'' in
       Connect (wtext ''H:'') (wtext homeDirA) False w (wtext ''ab12'') \<in> set (ms_log (ag_mount s)) \<and>
       Some w \<notin> set (map (wide_field (ae_mount example_remap_env) MBUFLEN) (drive_passwords s)))"
  by code_simp

theorem erased_password_copy_remains_witness:
  "\<exists>s. example_copy_run = Some s \<and> (spass (ag_creds s) = None \<or> spass (ag_creds s) = Some []) \<and>
     ms_npass (ag_mount s) = wtext ''pw''"
proof -
  obtain s where run: "example_copy_run = Some s" and fin: "ag_mountDone s" "ss_done (ag_script s)"
      and conn: "Connect (wtext ''H:'') (wtext homeDirA) False (wtext ''pw'') (wtext ''ab12'') \<in> set (ms_log (ag_mount s))"
      "Some (wtext ''pw'') \<notin> set (map (wide_field (ae_mount example_remap_env) MBUFLEN) (drive_passwords s))"
    using example_copy_run_result unfolding Let_def by (auto split: option.splits)
  have "reachable example_remap_env s"
    by (rule reachable_run.run_opt_good [OF reachable.start])
       (rule run [unfolded example_copy_run_def agent_run_run_opt])
  from erased_password_copy_remains [OF this fin conn(1) _ conn(2)] run show ?thesis
    by (intro exI [of _ s]) (simp add: wtext_def)
qed

text \<open>
  The last resort of \<open>loadPath\<close> ignores its destination: when the Windows directory is found
  neither by the shell nor in the environment, the fallback overwrites the programs directory and
  the Windows directory keeps its old value.
\<close>

theorem loadPath_fallback_wrong_variable:
  assumes "first_path api csidl envName = None"
  shows "loadPath api WindowsPath csidl envName (Some f) vars WindowsPath = vars WindowsPath \<and>
    loadPath api WindowsPath csidl envName (Some f) vars ProgramsPath = take MAX_PATH (wtext f)"
  using assms by (simp add: loadPath_def)

theorem loadPath_fallback_wrong_variable_witness:
  "loadPath \<lparr>pa_shell32 = False, pa_folder = (\<lambda>_. None), pa_special = (\<lambda>_. None), pa_env = (\<lambda>_. None)\<rparr>
     WindowsPath 0x24 (Some ''windir'') (Some ''W'') (\<lambda>_. []) WindowsPath = []"
  by (rule loadPath_fallback_wrong_variable [THEN conjunct1, THEN trans])
     (simp_all add: first_path_def)

end
