(* ===== verification/WinresStart.thy ===== *)
theory WinresStart
  imports WinresMain
begin

section \<open>Guest agent: start-up and the whole program (winres.c)\<close>

text \<open>
  \<open>WinMain\<close> up to its message loop: the settings, the paths, sound and power, the share file, the four
  timers, the notifications about screens and the changes for remote access, in the order of the
  code. It yields the configuration, the state in which the message loop starts and the list
  of calls made. The properties at the end hold for every run of the program from there.

  The \<open>debug\<close> setting only influences what is logged and is left out, as is the log itself; the
  probing of the log file at the start is modelled, because it creates and removes files. A
  \<open>MessageBox\<close> counts as returning at once: the messages that its own loop dispatches meanwhile are
  not modelled.
\<close>

datatype timer = DrivesTimer | ShutdownTimer | ResTimer | ScriptTimer

datatype win_call =
    LogOpen wstring
  | LogRemove wstring
  | SoundCall sound_call
  | ScreenSaverOff
  | ExecutionState u32
  | StartTimer timer nat
  | CreateSockWindow
  | RegisterMonitors
  | RemoteCall remote_call

text \<open>
  What the system answers: the libraries found, the settings file, the version (\<open>None\<close> if
  \<open>GetVersionEx\<close> fails), the size of a log file that can be opened, the volume control, the ids
  of the timers (0 for a failure), the window (\<open>Some e\<close> if it cannot be created), the registry.
\<close>

record win_env =
  we_kernel32 :: bool
  we_shell32 :: bool
  we_ini :: ini_file
  we_version :: "(int \<times> int) option"
  we_paths :: path_api
  we_temp :: "wstring option"
  we_log :: "wstring \<Rightarrow> int option"
  we_utf8 :: "string \<Rightarrow> wstring option"
  we_sound :: "bool \<times> bool \<times> bool"
  we_power :: bool
  we_resolve :: "string \<Rightarrow> string option"
  we_share :: "string option"
  we_timer :: "timer \<Rightarrow> nat"
  we_notify :: bool
  we_window :: "int option"
  we_reg :: bool

subsection \<open>Definitions\<close>

text \<open>
  The first log file that can be opened; it is removed again when it has fewer than three bytes.
\<close>

definition drop_short_log :: "wstring \<Rightarrow> int \<Rightarrow> win_call list" where
  "drop_short_log f pos = (if pos < 3 then [LogRemove f] else [])"

definition log_probe :: "(wstring \<Rightarrow> int option) \<Rightarrow> wstring \<Rightarrow> wstring \<Rightarrow> win_call list" where
  "log_probe log desk temp =
     LogOpen desk #
     (case log desk of
        Some pos \<Rightarrow> drop_short_log desk pos
      | None \<Rightarrow> LogOpen temp # (case log temp of Some pos \<Rightarrow> drop_short_log temp pos | None \<Rightarrow> []))"

definition makeWindow :: "bool \<Rightarrow> int option \<Rightarrow> int \<times> win_call list" where
  "makeWindow exists created =
     (if exists then (0, [])
      else (case created of None \<Rightarrow> 0 | Some err \<Rightarrow> err, [CreateSockWindow]))"

text \<open>One tick of the shutdown timer: \<open>bInProc\<close> before and after, and the result of the call.\<close>

definition resetShutdown ::
  "(string \<Rightarrow> nat) \<Rightarrow> (nat \<Rightarrow> string \<Rightarrow> nat) \<Rightarrow> (nat \<Rightarrow> bool) \<Rightarrow> bool \<Rightarrow> bool \<times> (int \<times> nat option) option" where
  "resetShutdown findTop findIn sent bInProc =
     (if bInProc then (bInProc, None) else (False, Some (setShutdownText findTop findIn sent)))"

text \<open>The settings become the environment of the handlers; \<open>base\<close> holds the answers of the system.\<close>

definition configure ::
  "win_env \<Rightarrow> agent_config \<Rightarrow> int \<Rightarrow> int \<Rightarrow> agent_env \<Rightarrow> agent_env" where
  "configure w cfg major minor base =
     (let ini = we_ini w; flag = (\<lambda>key. ini_int ini ''openslx'' key 0 \<noteq> 0)
      in base\<lparr>
        ae_mount := (ae_mount base)\<lparr>me_utf8 := we_utf8 w, me_persistent := flag ''persistentMode'',
          me_createMissing := ac_createMissing cfg, me_remapMode := ac_remapMode cfg,
          me_homeDrive := ac_homeDrive cfg, me_remap := ac_remap cfg, me_major := major, me_minor := minor,
          me_desktop := ac_paths cfg DesktopPath, me_windows := ac_paths cfg WindowsPath\<rparr>,
        ae_script := (ae_script base)\<lparr>se_utf8 := we_utf8 w, se_scriptFile := ac_scriptFile cfg,
          se_passCreds := ac_passCreds cfg\<rparr>,
        ae_res := (ae_res base)\<lparr>preferPhysicalScreen := flag ''preferPhysicalScreen'',
          programsPath := ac_paths cfg ProgramsPath\<rparr>,
        ae_noHomeWarn := ac_noHomeWarn cfg\<rparr>)"

definition start_calls :: "win_env \<Rightarrow> agent_config \<Rightarrow> int \<Rightarrow> int \<Rightarrow> bool \<Rightarrow> win_call list" where
  "start_calls w cfg major minor drives_wanted =
     (let ini = we_ini w; retVer = (we_version w \<noteq> None);
          desk = take 299 (ac_paths cfg DesktopPath @ wslash @ wtext ''openslx.log'');
          temp = take 299 (ac_temp cfg @ wslash @ wtext ''openslx.log'');
          mute = (ini_int ini ''openslx'' ''muteSound'' 1 \<noteq> 0)
      in log_probe (we_log w) desk temp
         @ (if retVer \<and> 6 \<le> major
            then (case we_sound w of (a, b, c) \<Rightarrow> map SoundCall (snd (muteSound a b c mute))) else [])
         @ [ScreenSaverOff]
         @ (case setPowerState (we_kernel32 w) (we_power w) major minor of
              None \<Rightarrow> [] | Some flags \<Rightarrow> [ExecutionState flags])
         @ (if drives_wanted then [StartTimer DrivesTimer 1650] else [])
         @ (if retVer \<and> major = 6 \<and> minor = 1 then [StartTimer ShutdownTimer 5230] else [])
         @ (if (6 < major \<or> (major = 6 \<and> 1 \<le> minor)) \<and> we_notify w
            then snd (makeWindow False (we_window w))
                 @ (if fst (makeWindow False (we_window w)) = 0 then [RegisterMonitors] else [])
            else [])
         @ [StartTimer ResTimer 211, StartTimer ScriptTimer 3456]
         @ (if take 99 (ini_str ini ''openslx'' ''runMode'' []) = ''remoteaccess''
            then map RemoteCall (snd (optimizeForRemote (ini_int ini ''openslx'' ''persistentMode'' 0 \<noteq> 0) (we_reg w)))
            else []))"

definition WinMain_start :: "win_env \<Rightarrow> agent_env \<Rightarrow> agent_env \<times> agent \<times> win_call list" where
  "WinMain_start w base =
     (let (major, minor) = (case we_version w of None \<Rightarrow> (0, 0) | Some v \<Rightarrow> v);
          cfg = loadPaths ((we_paths w)\<lparr>pa_shell32 := we_shell32 w\<rparr>) (we_temp w) (\<lambda>f. we_log w f \<noteq> None)
                  (we_utf8 w) (we_ini w);
          env = configure w cfg major minor base;
          s = agent_start env (we_resolve w) (we_share w) (we_timer w DrivesTimer \<noteq> 0)
                (we_timer w ScriptTimer \<noteq> 0) (we_timer w ResTimer)
      in (env, s, start_calls w cfg major minor (shareFileOk (ag_creds s) \<or> ac_remapMode cfg \<noteq> RM_NONE)))"

text \<open>
  The whole program on a sequence of messages: \<open>None\<close> when a handler does not return.
\<close>

definition WinMain :: "win_env \<Rightarrow> agent_env \<Rightarrow> agent_event list \<Rightarrow> (agent \<times> win_call list) option" where
  "WinMain w base evs =
     (case WinMain_start w base of (env, s, calls) \<Rightarrow>
        map_option (\<lambda>s'. (s', calls)) (agent_run env s evs))"

subsection \<open>Every run\<close>

lemma WinMain_reachable:
  assumes "WinMain w base evs = Some (s, calls)"
  obtains env s0 where "WinMain_start w base = (env, s0, calls)" and "agent_run env s0 evs = Some s"
    and "reachable env s0"
proof -
  obtain env s0 c where st: "WinMain_start w base = (env, s0, c)" by (metis prod_cases3)
  then have "reachable env s0"
    by (auto simp: WinMain_start_def Let_def intro: reachable.start split: prod.splits)
  with st assms that show ?thesis by (auto simp: WinMain_def)
qed

lemma WinMain_start_persistent:
  "WinMain_start w base = (env, s, calls) \<Longrightarrow>
     me_persistent (ae_mount env) = (ini_int (we_ini w) ''openslx'' ''persistentMode'' 0 \<noteq> 0) \<and> ms_log (ag_mount s) = []"
  by (auto simp: WinMain_start_def configure_def agent_start_def mount_init_def Let_def split: prod.splits)

text \<open>A run that has finished with drives and scripts no longer holds the password in its variable.\<close>

lemma WinMain_erases_password:
  assumes "WinMain w base evs = Some (s, calls)" and "ag_mountDone s" and "ss_done (ag_script s)"
  shows "spass (ag_creds s) = None \<or> spass (ag_creds s) = Some []"
proof -
  from assms(1) obtain env s0 where "agent_run env s0 evs = Some s" and "reachable env s0"
    by (rule WinMain_reachable)
  then have "reachable env s" by (metis agent_run_run_opt reachable_run.run_opt_good)
  from reachable_ok [OF this] assms(2,3) show ?thesis by (simp add: erased_def)
qed

text \<open>The action log of the drives along the messages.\<close>

abbreviation agent_clean :: "agent_env \<Rightarrow> agent \<Rightarrow> bool" where
  "agent_clean env s \<equiv> clean_log (ae_mount env) (creds_init, ag_mount s)"

lemma clean_creds: "clean_log e (g, m) \<Longrightarrow> clean_log e (g', m)"
  by (simp add: clean_log_def)

lemma remap_home_clean: "agent_clean env s \<Longrightarrow> agent_clean env (remap_home env s)"
  using clean_creds [OF remapViaSharedFolder_clean [of "ae_mount env" "ag_creds s" "ag_mount s"]]
  by (simp add: remap_home_def) (metis clean_creds)

lemma finish_clean:
  "agent_clean env s \<Longrightarrow> agent_clean env (fst (finish_drives env s))"
  "agent_clean env s \<Longrightarrow> agent_clean env (fst (finish_remap env s))"
  using remap_home_clean [of env s] by (auto simp: finish_drives_def finish_remap_def Let_def)

lemma setupNetworkDrives_clean:
  assumes "agent_clean env s"
  shows "agent_clean env (fst (setupNetworkDrives env nc early s))"
proof -
  obtain ret g dg where q: "queryPasswordDaemon nc (ag_creds s) = (ret, g, dg)" by (metis prod_cases3)
  obtain ok g' m' where mt: "mountNetworkShares (ae_mount env) (g, ag_mount s) = (ok, g', m')" by (metis prod_cases3)
  have m': "clean_log (ae_mount env) (creds_init, m')"
    using mountNetworkShares_clean [OF clean_creds [OF assms, of g]] by (simp add: mt clean_log_def)
  have remapped: "agent_clean env (remap_home env (s\<lparr>ag_inProc := True\<rparr>))"
    by (rule remap_home_clean) (simp add: assms)
  show ?thesis
    by (auto simp: setupNetworkDrives_def q mt Let_def assms m' remapped intro!: finish_clean)
qed

lemma socket_data_clean:
  assumes "agent_clean env s"
  shows "agent_clean env (socket_data env ret s)"
proof -
  let ?r = "if sockOpen (ag_creds s) \<and> \<not> ag_closed s then ret else None"
  obtain g m where u: "udpReceived (ae_mount env) ?r (ag_creds s, ag_mount s) = (g, m)" by fastforce
  with mount_step_clean [OF clean_creds [OF assms, of "ag_creds s"], of "Received ?r"]
  have "clean_log (ae_mount env) (creds_init, m)" by (simp add: clean_log_def)
  then show ?thesis by (simp add: socket_data_def Let_def u)
qed

lemma dispatch_clean:
  assumes "agent_clean env s" and "dispatch env s ev = Some s'"
  shows "agent_clean env s'"
proof (cases ev)
  case (TimerDrives nc early)
  obtain l where "drive_timer env nc early s = (fst (setupNetworkDrives env nc early s))\<lparr>ag_log := l\<rparr>"
    by (rule drive_timer_result)
  with assms TimerDrives setupNetworkDrives_clean [OF assms(1)] show ?thesis by (auto simp: dispatch_def)
next
  case (SockData e r)
  with assms socket_data_clean show ?thesis by (auto simp: dispatch_def slxWindowProc_def split: if_splits)
qed (use assms in \<open>auto simp: dispatch_def script_timer_def res_timer_def slxWindowProc_def split: option.splits if_splits\<close>)

interpretation clean_run: partial_machine "agent_step env" "agent_clean env"
proof
  fix s s' :: agent and ev
  assume "agent_clean env s" and "agent_step env s ev = Some s'"
  then show "agent_clean env s'"
    using dispatch_clean [of env s ev] by (auto simp: agent_step_def erase_password_def)
qed

lemma log_probe_no_remote: "RemoteCall c \<notin> set (log_probe lg desk temp)"
  by (simp add: log_probe_def drop_short_log_def split: option.split)

lemma makeWindow_no_remote: "RemoteCall c \<notin> set (snd (makeWindow ex cr))"
  by (simp add: makeWindow_def)

lemma sound_no_remote: "RemoteCall c \<notin> set (case t of (x, y, z) \<Rightarrow> map SoundCall (f x y z))"
  by (auto split: prod.split)

lemma power_no_remote: "RemoteCall c \<notin> set (case p of None \<Rightarrow> [] | Some flags \<Rightarrow> [ExecutionState flags])"
  by (simp split: option.split)

lemma remote_persistent: "RemoteCall c \<notin> set (map RemoteCall (snd (optimizeForRemote True reg)))"
  by (simp add: optimizeForRemote_def)

lemmas no_remote = log_probe_no_remote makeWindow_no_remote sound_no_remote power_no_remote remote_persistent

lemma not_set_append: "x \<notin> set xs \<Longrightarrow> x \<notin> set ys \<Longrightarrow> x \<notin> set (xs @ ys)"
  by simp

lemma not_set_if: "x \<notin> set xs \<Longrightarrow> x \<notin> set ys \<Longrightarrow> x \<notin> set (if b then xs else ys)"
  by simp

lemma start_calls_no_remote:
  assumes "ini_int (we_ini w) ''openslx'' ''persistentMode'' 0 \<noteq> 0"
  shows "RemoteCall c \<notin> set (start_calls w cfg major minor dw)"
proof -
  have per: "(ini_int (we_ini w) ''openslx'' ''persistentMode'' 0 \<noteq> 0) = True" using assms by simp
  show ?thesis
    unfolding start_calls_def Let_def per
    by (intro not_set_append not_set_if no_remote) simp_all
qed

text \<open>
  C8: with \<open>persistentMode\<close> set in the settings file (a machine being edited), the handling of drives
  and folders and the start-up leave the machine alone: no run of the agent sets one of the
  folders' registry values, creates a directory or a shortcut, ends the explorer, or applies the
  settings for remote access, whatever the share file, the messages and the answers of the system are.
  Three things the mode does not prevent are outside this statement: an old shortcut is deleted
  (\<open>persistent_mode_deletes_link\<close>), printers are installed, and the screen resolution is saved
  (\<open>persistent_run_saves_resolution\<close>).
\<close>

theorem persistent_run_keeps_folders:
  assumes "ini_int (we_ini w) ''openslx'' ''persistentMode'' 0 \<noteq> 0"
    and "WinMain w base evs = Some (s, calls)"
  shows "list_all (\<lambda>a. \<not> is_change a) (ms_log (ag_mount s)) \<and> (\<forall>c. RemoteCall c \<notin> set calls)"
proof -
  from assms(2) obtain env s0 where st: "WinMain_start w base = (env, s0, calls)" "agent_run env s0 evs = Some s"
    by (rule WinMain_reachable)
  note per = WinMain_start_persistent [OF st(1)]
  have "agent_clean env s" by (rule clean_run.run_opt_good [OF _ st(2) [unfolded agent_run_run_opt]]) (use per in \<open>simp add: clean_log_def\<close>)
  moreover have "\<forall>c. RemoteCall c \<notin> set calls"
    using st(1) start_calls_no_remote [OF assms(1)] by (auto simp: WinMain_start_def Let_def split: prod.splits)
  ultimately show ?thesis using per assms(1) by (simp add: clean_log_def)
qed

definition example_win_env :: win_env where
  "example_win_env =
     \<lparr>we_kernel32 = True, we_shell32 = True,
      we_ini = \<lparr>ini_int = (\<lambda>sec key def. if key = ''persistentMode'' then 1 else def),
                ini_str = (\<lambda>sec key def. if key = ''runMode'' then ''remoteaccess'' else def)\<rparr>,
      we_version = Some (10, 0),
      we_paths = \<lparr>pa_shell32 = True, pa_folder = (\<lambda>c. None), pa_special = (\<lambda>c. None), pa_env = (\<lambda>v. None)\<rparr>,
      we_temp = None, we_log = (\<lambda>f. Some 0), we_utf8 = (\<lambda>s. Some (wtext s)), we_sound = (True, True, True),
      we_power = True, we_resolve = (\<lambda>h. None), we_share = None, we_timer = (\<lambda>t. 7), we_notify = True,
      we_window = None, we_reg = True\<rparr>"

definition example_win_events :: "netcalls \<Rightarrow> agent_event list" where
  "example_win_events nc = [OtherMessage, TimerDrives nc True, DeviceChange 0x8000 9]"

theorem persistent_run_keeps_folders_witness:
  "\<forall>nc. \<exists>s calls. WinMain example_win_env example_agent_env (example_win_events nc) = Some (s, calls) \<and>
     list_all (\<lambda>a. \<not> is_change a) (ms_log (ag_mount s)) \<and> (\<forall>c. RemoteCall c \<notin> set calls)"
proof
  fix nc
  obtain s calls where run: "WinMain example_win_env example_agent_env (example_win_events nc) = Some (s, calls)"
    by (cases "WinMain_start example_win_env example_agent_env") (auto simp: WinMain_def example_win_events_def agent_step_def dispatch_def)
  from persistent_run_keeps_folders [OF _ this]
  show "\<exists>s calls. WinMain example_win_env example_agent_env (example_win_events nc) = Some (s, calls) \<and>
     list_all (\<lambda>a. \<not> is_change a) (ms_log (ag_mount s)) \<and> (\<forall>c. RemoteCall c \<notin> set calls)"
    using run by (simp add: example_win_env_def)
qed

text \<open>
  The calls that write the resolution to the registry or to the display database:
  \<open>ChangeDisplaySettings\<close> with \<open>CDS_UPDATEREGISTRY\<close> and \<open>SetDisplayConfig\<close> with
  \<open>SDC_SAVE_TO_DATABASE\<close>.
\<close>

fun saves_display :: "agent_action \<Rightarrow> bool" where
  "saves_display (DisplayCall (ChangeScreen i mode)) = True"
| "saves_display (DisplayCall (ChangeLegacy w h flags)) = odd flags"
| "saves_display (DisplayCall (SetDisplayConfig ps ms save)) = save"
| "saves_display a = False"

text \<open>
  The resolution timer does not look at \<open>persistentMode\<close>. In the run below the mode is set, and
  a tick of the timer changes the screens to the resolution of the settings and saves it.
\<close>

theorem persistent_run_saves_resolution:
  "\<exists>s calls. ini_int (we_ini example_win_env) ''openslx'' ''persistentMode'' 0 \<noteq> 0 \<and>
     WinMain example_win_env example_agent_env [TimerRes 7 example_display] = Some (s, calls) \<and>
     list_ex saves_display (ag_log s)"
proof -
  have "case WinMain example_win_env example_agent_env [TimerRes 7 example_display] of
      None \<Rightarrow> False | Some (s, calls) \<Rightarrow> list_ex saves_display (ag_log s)"
    by code_simp
  then show ?thesis by (auto simp: example_win_env_def split: option.splits)
qed

end
