(* ===== verification/Brightness.thy ===== *)
theory Brightness
  imports CLib
begin

section \<open>Brightness keys (slx-brightness/src/main.c)\<close>

text \<open>
  The program listens to input devices and, for each brightness key, reads the current brightness
  from a file, moves it by one step and writes it back. This theory holds the argument check
  (\<open>main\<close>), the search for devices (\<open>open_events\<close>), the reassembly of input events from partial reads
  (\<open>handle_fd\<close>), the handling of a key (\<open>handle_message\<close>), the two file functions, the epoll loop and
  the run of the whole program (\<open>main_run\<close>).

  The results of \<open>open\<close>, \<open>read\<close> and \<open>write\<close> are arguments: a list of results, one per call. \<open>int\<close> has
  32 bits; sums are taken modulo 2^32 as the compiled code does.
\<close>

subsection \<open>Files\<close>

datatype io_read = ReadBytes string | ReadFail

record file_read =
  fr_open :: bool
  fr_results :: "io_read list"

text \<open>
  The reading loop: \<open>len\<close> is the size left. A read delivers at most that many characters, and
  nothing at the end of the file (also when the list of results is used up).
\<close>

fun read_loop :: "io_read list \<Rightarrow> nat \<Rightarrow> string \<Rightarrow> string option" where
  "read_loop rs 0 buf = Some buf"
| "read_loop [] (Suc n) buf = Some buf"
| "read_loop (ReadFail # rs) (Suc n) buf = None"
| "read_loop (ReadBytes s # rs) (Suc n) buf =
     (if s = [] then Some buf
      else let c = take (Suc n) s in read_loop rs (Suc n - length c) (buf @ c))"

text \<open>The return value and the text in the buffer.\<close>

definition file_get_contents :: "file_read \<Rightarrow> nat \<Rightarrow> int \<times> string" where
  "file_get_contents f len =
     (if len \<le> 1 then (0, [])
      else if \<not> fr_open f then (- 1, [])
      else case read_loop (fr_results f) (len - 1) [] of
        None \<Rightarrow> (- 1, [])
      | Some buf \<Rightarrow> (int (length buf), buf))"

datatype io_write = Wrote nat | WriteFail

fun write_loop :: "io_write list \<Rightarrow> string \<Rightarrow> string \<Rightarrow> bool \<times> string" where
  "write_loop ws [] acc = (True, acc)"
| "write_loop [] (c # s) acc = (True, acc)"
| "write_loop (WriteFail # ws) (c # s) acc = (False, acc)"
| "write_loop (Wrote n # ws) (c # s) acc =
     (if n = 0 then (True, acc) else write_loop ws (drop n (c # s)) (acc @ take n (c # s)))"

text \<open>
  The return value and the new content of the file, which is truncated when it is opened.
\<close>

definition file_put_contents :: "bool \<Rightarrow> io_write list \<Rightarrow> string \<Rightarrow> string \<Rightarrow> int \<times> string" where
  "file_put_contents opened ws old buffer =
     (if \<not> opened then (- 1, old)
      else case write_loop ws buffer [] of (ok, content) \<Rightarrow>
        (if ok then int (length content) else - 1, content))"

subsection \<open>Arguments\<close>

record bconf =
  b_min :: int
  b_max :: int
  b_step :: int
  b_all :: bool
  b_file :: string

datatype start = ListDevices | Usage | BadRange | Run bconf

text \<open>32-bit signed arithmetic.\<close>

definition s32 :: "int \<Rightarrow> int" where
  "s32 x = sint (word_of_int x :: 32 word)"

definition main_bright :: "string list \<Rightarrow> start" where
  "main_bright argv =
     (if 1 < length argv \<and> argv ! 1 = ''-l'' then ListDevices
      else let all = (1 < length argv \<and> argv ! 1 = ''-a'');
               argv' = (if all then tl argv else argv)
      in if length argv' < 5 then Usage
         else let mn = atoi_glibc (argv' ! 2); mx = atoi_glibc (argv' ! 3); steps = atoi_glibc (argv' ! 4)
         in if mx \<le> mn \<or> steps < 1 then BadRange
            else let d = s32 (mx - mn);
                     step = (if d < 0 then - ((- d) div steps) else d div steps)
            in Run \<lparr>b_min = mn, b_max = mx, b_step = (if step < 1 then 1 else step), b_all = all,
                    b_file = argv' ! 1\<rparr>)"

subsection \<open>Devices\<close>

text \<open>
  The answer of \<open>open\<close> for a device number: it does not exist, another error, or a device with the
  name the ioctl reports (\<open>None\<close> if it fails) and whether it can be added to the epoll set.
\<close>

datatype device = NoEntry | OpenError | Dev "string option" bool

fun dev_step :: "bool \<Rightarrow> bool \<Rightarrow> device \<Rightarrow> nat \<Rightarrow> nat \<Rightarrow> (nat \<times> nat) option" where
  "dev_step listing all NoEntry fails opened = (if Suc fails < 10 then Some (Suc fails, opened) else None)"
| "dev_step listing all OpenError fails opened = None"
| "dev_step listing all (Dev None added) fails opened = Some (0, opened)"
| "dev_step listing all (Dev (Some name) added) fails opened =
     (if listing then Some (0, opened)
      else if \<not> all \<and> name \<noteq> ''Video Bus'' then Some (0, opened)
      else Some (0, if added then Suc opened else opened))"

partial_function (option) open_events ::
  "bool \<Rightarrow> bool \<Rightarrow> (nat \<Rightarrow> device) \<Rightarrow> nat \<Rightarrow> nat \<Rightarrow> nat \<Rightarrow> nat option" where
  "open_events listing all dev i fails opened =
     (case dev_step listing all (dev i) fails opened of
        None \<Rightarrow> Some opened
      | Some (fails', opened') \<Rightarrow> open_events listing all dev (Suc i) fails' opened')"

declare open_events.simps [code]

subsection \<open>Input events\<close>

definition EVSIZE :: nat where
  "EVSIZE = 24"

record input_event =
  ev_type :: u16
  ev_code :: u16
  ev_value :: int

definition u16_at :: "byte list \<Rightarrow> nat \<Rightarrow> u16" where
  "u16_at b i = ucast (b ! i) OR push_bit 8 (ucast (b ! Suc i))"

definition u32_at :: "byte list \<Rightarrow> nat \<Rightarrow> u32" where
  "u32_at b i = ucast (b ! i) OR push_bit 8 (ucast (b ! (i + 1))) OR push_bit 16 (ucast (b ! (i + 2)))
     OR push_bit 24 (ucast (b ! (i + 3)))"

text \<open>\<open>struct input_event\<close> on a 64-bit little-endian machine: 16 bytes of time, type, code, value.\<close>

definition decode_event :: "byte list \<Rightarrow> input_event" where
  "decode_event b = \<lparr>ev_type = u16_at b 16, ev_code = u16_at b 18, ev_value = sint (u32_at b 20)\<rparr>"

definition new_brightness :: "bconf \<Rightarrow> bool \<Rightarrow> int \<Rightarrow> int" where
  "new_brightness c up val =
     (let newval = s32 (val + b_step c * (if up then 1 else - 1))
      in if newval < b_min c then b_min c else if b_max c < newval then b_max c else newval)"

text \<open>The text \<open>handle_message\<close> hands to \<open>file_put_contents\<close>, if it gets that far.\<close>

definition handle_message :: "bconf \<Rightarrow> file_read \<Rightarrow> input_event \<Rightarrow> string option" where
  "handle_message c f ev =
     (if ev_type ev \<noteq> 1 then None
      else if ev_value ev \<noteq> 1 \<and> ev_value ev \<noteq> 2 then None
      else if ev_code ev \<noteq> 224 \<and> ev_code ev \<noteq> 225 then None
      else case file_get_contents f 100 of (len, buf) \<Rightarrow>
        if len \<le> 0 then None
        else let val = atoi_glibc (cstr buf);
                 newval = new_brightness c (ev_code ev = 225) val
        in if val = newval then None else Some (snprintf_buf 100 (show_int newval)))"

datatype ev_read = EvBytes "byte list" | EvEINTR | EvEAGAIN | EvError

text \<open>
  The reading loop of one device: \<open>buf\<close> is the event buffer, \<open>done\<close> the number of bytes in it,
  \<open>blocking\<close> the mode of the descriptor, \<open>msgs\<close> the events handled so far. When the results are used
  up, the next read would block. A read to a position in front of the buffer is \<open>None\<close>.
\<close>

primrec handle_fd ::
  "ev_read list \<Rightarrow> byte list \<Rightarrow> int \<Rightarrow> bool \<Rightarrow> byte list list \<Rightarrow> (bool \<times> bool \<times> byte list list) option" where
  "handle_fd [] buf done blocking msgs = (if done < 0 then None else Some (True, blocking, msgs))"
| "handle_fd (r # rs) buf done blocking msgs =
     (if done < 0 then None
      else case r of
        EvEAGAIN \<Rightarrow> Some (True, blocking, msgs)
      | EvError \<Rightarrow> Some (False, blocking, msgs)
      | EvEINTR \<Rightarrow> handle_fd rs buf (done - 1) True msgs
      | EvBytes bs \<Rightarrow>
          if bs = [] then Some (True, blocking, msgs)
          else let d = nat done;
                   got = take (EVSIZE - d) bs;
                   buf' = take d buf @ got @ drop (d + length got) buf
               in if d + length got = EVSIZE
                  then handle_fd rs buf' 0 (if d \<noteq> 0 then False else blocking) (msgs @ [buf'])
                  else handle_fd rs buf' (int (d + length got)) True msgs)"

subsection \<open>Reassembling events\<close>

text \<open>
  Reads that never cross the end of an event, as the size asked for guarantees, from \<open>d\<close> bytes of
  a started event on; and the complete events of a byte stream.
\<close>

fun fits_reads :: "nat \<Rightarrow> byte list list \<Rightarrow> bool" where
  "fits_reads d [] = True"
| "fits_reads d (c # cs) \<longleftrightarrow> c \<noteq> [] \<and> d + length c \<le> EVSIZE \<and> fits_reads ((d + length c) mod EVSIZE) cs"

definition events_of :: "byte list \<Rightarrow> byte list list" where
  "events_of s = map (\<lambda>i. take EVSIZE (drop (EVSIZE * i) s)) [0..<length s div EVSIZE]"

lemma events_of_short: "length s < EVSIZE \<Longrightarrow> events_of s = []"
  by (simp add: events_of_def)

lemma events_of_append:
  assumes "length e = EVSIZE"
  shows "events_of (e @ s) = e # events_of s"
proof -
  have pos: "EVSIZE > 0" by (simp add: EVSIZE_def)
  have "length (e @ s) div EVSIZE = Suc (length s div EVSIZE)"
    using assms pos div_add_self1 [of EVSIZE "length s"] by simp
  moreover have "take EVSIZE (drop (EVSIZE * Suc i) (e @ s)) = take EVSIZE (drop (EVSIZE * i) s)" for i
    using assms by simp
  ultimately show ?thesis
    using assms by (simp add: events_of_def map_upt_Suc del: mult_Suc_right upt_Suc)
qed

lemma handle_fd_reads:
  assumes "fits_reads d cs" and "d < EVSIZE" and "length buf = EVSIZE" and "blocking = (d \<noteq> 0)"
  shows "handle_fd (map EvBytes cs) buf (int d) blocking msgs =
    Some (True, (d + length (concat cs)) mod EVSIZE \<noteq> 0, msgs @ events_of (take d buf @ concat cs))"
  using assms
proof (induction cs arbitrary: d buf blocking msgs)
  case Nil
  then show ?case by (simp add: events_of_short)
next
  case (Cons c cs)
  let ?buf = "take d buf @ c @ drop (d + length c) buf"
  have c: "c \<noteq> []" "d + length c \<le> EVSIZE" "fits_reads ((d + length c) mod EVSIZE) cs"
    using Cons.prems(1) by simp_all
  have len: "length ?buf = EVSIZE" using Cons.prems(2,3) c(2) by simp
  show ?case
  proof (cases "d + length c = EVSIZE")
    case True
    then have "length (take d buf @ c) = EVSIZE" and buf: "?buf = take d buf @ c"
      using Cons.prems(2,3) by simp_all
    then have ev: "events_of (take d buf @ c @ concat cs) = ?buf # events_of (concat cs)"
      using events_of_append [of "take d buf @ c" "concat cs"] by simp
    have "handle_fd (map EvBytes cs) ?buf (int 0) False (msgs @ [?buf]) =
        Some (True, (0 + length (concat cs)) mod EVSIZE \<noteq> 0, (msgs @ [?buf]) @ events_of (take 0 ?buf @ concat cs))"
      by (rule Cons.IH) (use c(3) True len in \<open>simp_all add: EVSIZE_def\<close>)
    moreover have "(d + length (concat (c # cs))) mod EVSIZE = length (concat cs) mod EVSIZE"
      using True by (metis add.assoc concat.simps(2) length_append mod_add_self1)
    ultimately show ?thesis
      using c(1) True ev Cons.prems(4) by (auto simp: buf)
  next
    case False
    then have lt: "d + length c < EVSIZE" using c(2) by simp
    have "handle_fd (map EvBytes cs) ?buf (int (d + length c)) True msgs =
        Some (True, (d + length c + length (concat cs)) mod EVSIZE \<noteq> 0,
              msgs @ events_of (take (d + length c) ?buf @ concat cs))"
      by (rule Cons.IH) (use c lt len in simp_all)
    moreover have "take (d + length c) ?buf = take d buf @ c" using Cons.prems(2,3) by simp
    moreover have "take (EVSIZE - d) c = c" using c(2) by simp
    ultimately show ?thesis
      using c(1) False by (simp only: list.map handle_fd.simps ev_read.case concat.simps append_assoc
          length_append add.assoc of_nat_less_0_iff if_False nat_int Let_def)
  qed
qed

text \<open>
  C29: however the kernel cuts the stream of a device into reads, \<open>handle_fd\<close> handles exactly the
  complete events of the stream, in order, and the descriptor is left in blocking mode only while
  an event is incomplete (no read being interrupted).
\<close>

theorem handle_fd_reassembles:
  assumes "fits_reads 0 cs" and "length buf = 24"
  shows "handle_fd (map EvBytes cs) buf 0 False [] =
    Some (True, length (concat cs) mod 24 \<noteq> 0, events_of (concat cs))"
  using handle_fd_reads [of 0 cs buf False "[]"] assms by (simp add: EVSIZE_def)

theorem handle_fd_reassembles_witness:
  "handle_fd (map EvBytes [replicate 10 1, replicate 14 2, replicate 24 3]) (replicate 24 0) 0 False []
     = Some (True, False, [replicate 10 1 @ replicate 14 2, replicate 24 3])"
  using handle_fd_reassembles [of "[replicate 10 1, replicate 14 2, replicate 24 3]" "replicate 24 0"]
  by (simp add: EVSIZE_def events_of_def upt_rec)

text \<open>
  A read that is interrupted by a signal between two events makes the next read write in
  front of the event buffer: the error value -1 is added to the number of bytes read.
\<close>

theorem handle_fd_interrupted:
  "handle_fd (EvEINTR # rs) buf 0 blocking msgs = None"
  by (cases rs) simp_all

subsection \<open>Brightness values\<close>

lemma s32_id: "- 2147483648 \<le> x \<Longrightarrow> x \<le> 2147483647 \<Longrightarrow> s32 x = x"
  by (simp add: s32_def sint_sbintrunc' signed_take_bit_int_eq_self)

lemma new_brightness_range:
  "b_min c \<le> b_max c \<Longrightarrow> b_min c \<le> new_brightness c up v \<and> new_brightness c up v \<le> b_max c"
  by (simp add: new_brightness_def Let_def)

text \<open>A printed \<open>int\<close> is read back by \<open>atoi\<close>, also with a line end behind it.\<close>

lemma c_strtol_show_int:
  assumes "lo \<le> i" "i \<le> hi" "lo \<le> 0" "0 \<le> hi" and "rest = [] \<or> \<not> c_isdigit (hd rest)"
  shows "c_strtol lo hi (show_int i @ rest) = (i, rest)"
proof (cases "i < 0")
  case False
  with assms show ?thesis
    using c_strtol_show_nat [of rest lo "nat i" hi] by (simp add: show_int_def)
next
  case True
  let ?ds = "show_nat (nat (- i))"
  have "takeWhile c_isdigit (?ds @ rest) = ?ds" "dropWhile c_isdigit (?ds @ rest) = rest"
    using takeWhile_digits [of ?ds rest] show_nat_digits assms(5) by blast+
  moreover have "c_sign (dropWhile c_isspace (show_int i @ rest)) = (True, ?ds @ rest)"
    using True by (simp add: show_int_def c_isspace_def)
  ultimately show ?thesis
    using True assms by (simp add: c_strtol_def show_nat_not_Nil digits_val_show_nat clamp_id)
qed

lemma atoi_glibc_show_int:
  assumes "- 2147483648 \<le> i" "i \<le> 2147483647" and "rest = [] \<or> \<not> c_isdigit (hd rest)"
  shows "atoi_glibc (show_int i @ rest) = i"
proof -
  have "c_strtol (- (2 ^ 63)) (2 ^ 63 - 1) (show_int i @ rest) = (i, rest)"
    by (rule c_strtol_show_int) (use assms in simp_all)
  then show ?thesis using assms(1,2) s32_id [of i] by (simp add: atoi_glibc_def s32_def)
qed

lemma length_show_int:
  assumes "- 2147483648 \<le> i" "i \<le> 2147483647"
  shows "length (show_int i) \<le> 11"
proof -
  have "nat i < 10 ^ 10" "nat (- i) < 10 ^ 10" using assms by simp_all
  then have "length (show_nat (nat i)) \<le> 10" "length (show_nat (nat (- i))) \<le> 10"
    by (auto intro!: length_show_nat_bound)
  then show ?thesis by (simp add: show_int_def)
qed

lemma show_int_not_Nil: "show_int i \<noteq> []"
  by (simp add: show_int_def show_nat_not_Nil)

lemma show_int_no_NUL: "NUL \<notin> set (show_int i)"
  using show_nat_digits c_isdigit_not_NUL by (auto simp: show_int_def NUL_def)

lemma handle_message_key:
  assumes "content = show_int v @ nl" and "nl = [] \<or> nl = [CHR ''\<newline>'']"
    and "- 2147483648 \<le> v" "v \<le> 2147483647" and "ev_type ev = 1" and "ev_value ev = 1 \<or> ev_value ev = 2"
    and "ev_code ev = (if up then 225 else 224)"
    and "- 2147483648 \<le> b_min c" "b_min c \<le> b_max c" "b_max c \<le> 2147483647"
  shows "handle_message c \<lparr>fr_open = True, fr_results = [ReadBytes content]\<rparr> ev =
    (if v = new_brightness c up v then None else Some (show_int (new_brightness c up v)))"
proof -
  have len: "length content < 99" "content \<noteq> []"
    using length_show_int [OF assms(3,4)] assms(1,2) show_int_not_Nil [of v] by auto
  obtain n where n: "(99 :: nat) = Suc n" by (metis numeral_eq_Suc)
  have "read_loop [ReadBytes content] 99 [] = Some content"
    using len unfolding n by (cases "Suc n - length content") auto
  then have get: "file_get_contents \<lparr>fr_open = True, fr_results = [ReadBytes content]\<rparr> 100
      = (int (length content), content)" by (simp add: file_get_contents_def)
  have "NUL \<notin> set content" using show_int_no_NUL [of v] assms(1,2) by (auto simp: NUL_def)
  then have "atoi_glibc (cstr content) = v"
    using atoi_glibc_show_int [OF assms(3,4), of nl] assms(1,2) by (auto simp: c_isdigit_def)
  moreover have "snprintf_buf 100 (show_int (new_brightness c up v)) = show_int (new_brightness c up v)"
    using length_show_int [of "new_brightness c up v"] new_brightness_range [OF assms(9), of up v] assms(8,10)
    by (simp add: snprintf_buf_def)
  ultimately show ?thesis
    using assms(5-7) get len by (auto simp: handle_message_def Let_def)
qed

lemma main_bright_conf:
  "main_bright argv = Run c \<Longrightarrow> - 2147483648 \<le> b_min c \<and> b_min c \<le> b_max c \<and> b_max c \<le> 2147483647"
  using atoi_glibc_range by (auto simp: main_bright_def Let_def split: if_splits)

text \<open>A text that \<open>handle_message\<close> writes is a decimal number in the configured range.\<close>

lemma handle_message_text:
  assumes "main_bright argv = Run c" and "handle_message c f ev = Some s"
  shows "b_min c \<le> atoi_glibc s \<and> atoi_glibc s \<le> b_max c \<and> s = show_int (atoi_glibc s)"
proof -
  have conf: "- 2147483648 \<le> b_min c" "b_min c \<le> b_max c" "b_max c \<le> 2147483647"
    using main_bright_conf [OF assms(1)] by simp_all
  from assms(2) obtain up v where s: "s = snprintf_buf 100 (show_int (new_brightness c up v))"
    by (auto simp: handle_message_def Let_def split: if_splits prod.splits)
  note r = new_brightness_range [OF conf(2), of up v]
  have "s = show_int (new_brightness c up v)"
    using length_show_int [of "new_brightness c up v"] r conf by (simp add: s snprintf_buf_def)
  with r conf atoi_glibc_show_int [of "new_brightness c up v" "[]"] show ?thesis by simp
qed

definition example_bconf :: bconf where
  "example_bconf = \<lparr>b_min = 10, b_max = 100, b_step = 9, b_all = False, b_file = ''f''\<rparr>"

lemma example_bconf_start: "main_bright [''prog'', ''f'', ''10'', ''100'', ''10''] = Run example_bconf"
  by (simp add: main_bright_def atoi_glibc_def c_strtol_def c_isspace_def c_isdigit_def digits_val_def
      digit_val_def clamp_def s32_def example_bconf_def)

definition up_key :: input_event where
  "up_key = \<lparr>ev_type = 1, ev_code = 225, ev_value = 1\<rparr>"

subsection \<open>Pressing a key repeatedly\<close>

text \<open>One key press against the file: what \<open>handle_message\<close> writes is what the next press reads.\<close>

definition press :: "bconf \<Rightarrow> bool \<Rightarrow> string \<Rightarrow> string" where
  "press c up content =
     (case handle_message c \<lparr>fr_open = True, fr_results = [ReadBytes content]\<rparr>
             \<lparr>ev_type = 1, ev_code = (if up then 225 else 224), ev_value = 1\<rparr> of
        None \<Rightarrow> content
      | Some s \<Rightarrow> snd (file_put_contents True [Wrote (length s)] content s))"

lemma press_value:
  assumes "b_min c \<le> v" "v \<le> b_max c" "- 2147483648 \<le> b_min c" "b_max c \<le> 2147483647"
  shows "press c up (show_int v) = show_int (new_brightness c up v)"
proof -
  have "write_loop [Wrote (length s)] s [] = (True, s)" for s by (cases s) auto
  then show ?thesis
    using handle_message_key [of "show_int v" v "[]" "\<lparr>ev_type = 1, ev_code = (if up then 225 else 224), ev_value = 1\<rparr>" up c]
      assms by (simp add: press_def file_put_contents_def)
qed

text \<open>
  Holding a brightness key moves the value in the file by exactly one step per event until it
  stops at the limit: after \<open>k\<close> events it is \<open>min max (v + k * step)\<close> for the key up, and the
  mirror image for the key down.
\<close>

theorem press_closed_form:
  assumes "b_min c \<le> v" "v \<le> b_max c" "1 \<le> b_step c"
    and "- 2147483648 \<le> b_min c - b_step c" "b_max c + b_step c \<le> 2147483647"
  shows "(press c True ^^ k) (show_int v) = show_int (min (b_max c) (v + int k * b_step c)) \<and>
         (press c False ^^ k) (show_int v) = show_int (max (b_min c) (v - int k * b_step c))"
proof (induction k)
  case 0
  then show ?case using assms by simp
next
  case (Suc k)
  define q where "q = int k * b_step c"
  have q: "0 \<le> q" "int (Suc k) * b_step c = q + b_step c"
    using assms(3) by (simp_all add: q_def algebra_simps)
  let ?u = "min (b_max c) (v + q)" let ?d = "max (b_min c) (v - q)"
  have u: "b_min c \<le> ?u" "?u \<le> b_max c" and d: "b_min c \<le> ?d" "?d \<le> b_max c"
    using assms(1,2) q(1) by auto
  have "new_brightness c True ?u = min (b_max c) (v + (q + b_step c))"
    using u q(1) assms by (simp add: new_brightness_def s32_id Let_def min_def)
  moreover have "new_brightness c False ?d = max (b_min c) (v - (q + b_step c))"
    using d q(1) assms by (simp add: new_brightness_def s32_id Let_def max_def)
  ultimately show ?case
    using Suc press_value [OF u] press_value [OF d] assms unfolding q(2) by (simp add: q_def)
qed

theorem press_closed_form_witness:
  "(press example_bconf True ^^ 11) (show_int 10) = show_int 100"
  using press_closed_form [of example_bconf 10 11] by (simp add: example_bconf_def)

subsection \<open>Finding the devices\<close>

definition listens :: "bool \<Rightarrow> device \<Rightarrow> bool" where
  "listens all d \<longleftrightarrow> (case d of Dev (Some name) True \<Rightarrow> all \<or> name = ''Video Bus'' | _ \<Rightarrow> False)"

lemma dev_step_device:
  assumes "d \<noteq> NoEntry" and "d \<noteq> OpenError"
  shows "dev_step False all d fails opened = Some (0, opened + (if listens all d then 1 else 0))"
proof -
  from assms obtain name added where "d = Dev name added" by (cases d) auto
  then show ?thesis by (cases name) (auto simp: listens_def)
qed

text \<open>
  The devices as the kernel numbers them: none from \<open>n\<close> on, and never ten missing numbers in front
  of a device that exists.
\<close>

definition few_gaps :: "(nat \<Rightarrow> device) \<Rightarrow> nat \<Rightarrow> bool" where
  "few_gaps dev n \<longleftrightarrow> (\<forall>i \<ge> n. dev i = NoEntry) \<and>
     (\<forall>i. (\<forall>j \<in> {i..<i + 10}. dev j = NoEntry) \<longrightarrow> (\<forall>j \<ge> i. dev j = NoEntry))"

lemma open_events_from:
  assumes dev: "few_gaps dev n" "\<forall>i. dev i \<noteq> OpenError"
    and "fails < 10" "fails \<le> i" "\<forall>j \<in> {i - fails..<i}. dev j = NoEntry" "n \<le> i \<longrightarrow> i - n \<le> fails"
  shows "open_events False all dev i fails opened
    = Some (opened + length (filter (\<lambda>k. listens all (dev k)) [i..<n]))"
  using assms(3-)
proof (induction "n + 10 - i" arbitrary: i fails opened rule: less_induct)
  case less
  have ilt: "i < n + 10" using less.prems(1,4) by (cases "n \<le> i") auto
  show ?case
  proof (cases "dev i = NoEntry")
    case missing: True
    have not: "\<not> listens all (dev i)" by (simp add: missing listens_def)
    have split: "filter (\<lambda>k. listens all (dev k)) [i..<n] = filter (\<lambda>k. listens all (dev k)) [Suc i..<n]"
      using not by (cases "i < n") (simp_all add: upt_conv_Cons)
    show ?thesis
    proof (cases "Suc fails < 10")
      case True
      have "open_events False all dev (Suc i) (Suc fails) opened
          = Some (opened + length (filter (\<lambda>k. listens all (dev k)) [Suc i..<n]))"
        by (rule less.hyps) (use less.prems ilt True missing in \<open>auto simp: less_Suc_eq\<close>)
      then show ?thesis using True missing split by (subst open_events.simps) simp
    next
      case False
      then have "\<forall>j \<in> {i - 9..<i - 9 + 10}. dev j = NoEntry"
        using less.prems(1-3) missing by (auto simp: less_Suc_eq)
      then have "\<forall>j \<ge> i - 9. dev j = NoEntry" using dev(1) by (simp add: few_gaps_def)
      then have "filter (\<lambda>k. listens all (dev k)) [i..<n] = []"
        by (auto simp: filter_empty_conv listens_def)
      then show ?thesis using False missing by (subst open_events.simps) simp
    qed
  next
    case False
    then have "i < n" using dev(1) by (meson few_gaps_def not_le)
    have step: "dev_step False all (dev i) fails opened
        = Some (0, opened + (if listens all (dev i) then 1 else 0))"
      by (rule dev_step_device) (use False dev(2) in auto)
    have "open_events False all dev (Suc i) 0 (opened + (if listens all (dev i) then 1 else 0))
        = Some (opened + (if listens all (dev i) then 1 else 0)
            + length (filter (\<lambda>k. listens all (dev k)) [Suc i..<n]))"
      by (rule less.hyps) (use \<open>i < n\<close> in auto)
    then show ?thesis
      using step \<open>i < n\<close> by (subst open_events.simps) (simp add: upt_conv_Cons)
  qed
qed

text \<open>
  C39: the search for input devices ends and finds them all: if fewer than ten numbers are missing
  between existing devices and each can be opened, the result is the number of devices that carry
  the wanted name (or of all, if asked for) and could be added.
\<close>

theorem open_events_finds_all:
  assumes "few_gaps dev n" and "\<forall>i. dev i \<noteq> OpenError"
  shows "open_events False all dev 0 0 0 = Some (length (filter (\<lambda>k. listens all (dev k)) [0..<n]))"
  using open_events_from [OF assms, of 0 0 all 0] by simp

theorem open_events_finds_all_witness:
  "open_events False False (\<lambda>i. if i = 2 then Dev (Some ''Video Bus'') True else NoEntry) 0 0 0 = Some 1"
proof -
  let ?dev = "\<lambda>i. if i = 2 then Dev (Some ''Video Bus'') True else NoEntry"
  have gap: "j \<noteq> 2" if "\<forall>k \<in> {i..<i + 10}. ?dev k = NoEntry" "i \<le> j" for i j :: nat
  proof
    assume "j = 2"
    with that(2) have "2 \<in> {i..<i + 10}" by simp
    with that(1) show False by (metis device.distinct(3))
  qed
  have "few_gaps ?dev 3"
    unfolding few_gaps_def
  proof (intro conjI allI impI)
    show "?dev j = NoEntry" if "\<forall>k \<in> {i..<i + 10}. ?dev k = NoEntry" "i \<le> j" for i j :: nat
      using gap [OF that] by simp
  qed simp
  from open_events_finds_all [OF this, of False] show ?thesis
    by (simp add: listens_def upt_rec numeral_eq_Suc)
qed

subsection \<open>The main loop\<close>
text \<open>
  The answers of the system for one handled event: what reading the brightness file yields for its
  content, whether it can be opened for writing, and the results of the writes. The brightness
  file, the texts handed to \<open>file_put_contents\<close>, the number of devices, the mode of each
  descriptor and the descriptors closed are the state of the run.
\<close>

record msg_io =
  mi_read :: "string \<Rightarrow> file_read"
  mi_open :: bool
  mi_writes :: "io_write list"

record bstate =
  bs_content :: string
  bs_put :: "string list"
  bs_valid :: int
  bs_blocking :: "nat \<Rightarrow> bool"
  bs_closed :: "nat list"

definition handle_key :: "bconf \<Rightarrow> bstate \<Rightarrow> msg_io \<times> byte list \<Rightarrow> bstate" where
  "handle_key c s m =
     (case m of (io, ev) \<Rightarrow>
        (case handle_message c (mi_read io (bs_content s)) (decode_event ev) of
          None \<Rightarrow> s
        | Some text \<Rightarrow>
            s\<lparr>bs_content := snd (file_put_contents (mi_open io) (mi_writes io) (bs_content s) text),
              bs_put := bs_put s @ [text]\<rparr>))"

text \<open>
  A ready descriptor: its number, what lies in the uninitialised event buffer, the results of its
  reads, the answers for the events they complete, and whether it can be removed from the set.
\<close>

record ready =
  rd_fd :: nat
  rd_buf :: "byte list"
  rd_reads :: "ev_read list"
  rd_io :: "nat \<Rightarrow> msg_io"
  rd_removed :: bool

definition handle_ready :: "bconf \<Rightarrow> ready \<Rightarrow> bstate \<Rightarrow> bstate option" where
  "handle_ready c r s =
     (case handle_fd (rd_reads r) (rd_buf r) 0 (bs_blocking s (rd_fd r)) [] of
        None \<Rightarrow> None
      | Some (ok, blocking, msgs) \<Rightarrow>
          let s1 = foldl (handle_key c) s (zip (map (rd_io r) [0..<length msgs]) msgs);
              s2 = s1\<lparr>bs_blocking := (bs_blocking s1)(rd_fd r := blocking)\<rparr>
          in Some (if \<not> ok \<and> rd_removed r
                   then s2\<lparr>bs_valid := bs_valid s2 - 1, bs_closed := bs_closed s2 @ [rd_fd r]\<rparr>
                   else s2))"

fun epoll_round :: "bconf \<Rightarrow> ready list \<Rightarrow> bstate \<Rightarrow> bstate option" where
  "epoll_round c [] s = Some s"
| "epoll_round c (r # rs) s = (case handle_ready c r s of None \<Rightarrow> None | Some s' \<Rightarrow> epoll_round c rs s')"

datatype epoll_result = Ready "ready list" | WaitEINTR | WaitFail

text \<open>
  The loop over the results of \<open>epoll_wait\<close>: the exit code (\<open>None\<close> while the program waits) and the
  state. The result \<open>None\<close> is the write in front of the event buffer.
\<close>

primrec epoll_loop :: "bconf \<Rightarrow> epoll_result list \<Rightarrow> bstate \<Rightarrow> (int option \<times> bstate) option" where
  "epoll_loop c [] s = Some (None, s)"
| "epoll_loop c (w # ws) s =
     (case w of
        WaitFail \<Rightarrow> Some (Some 1, s)
      | WaitEINTR \<Rightarrow> epoll_loop c ws s
      | Ready rs \<Rightarrow>
          if rs = [] then Some (Some 0, s)
          else (case epoll_round c rs s of None \<Rightarrow> None | Some s' \<Rightarrow> epoll_loop c ws s'))"

definition bstate_init :: "string \<Rightarrow> nat \<Rightarrow> bstate" where
  "bstate_init content valid =
     \<lparr>bs_content = content, bs_put = [], bs_valid = int valid, bs_blocking = (\<lambda>fd. False), bs_closed = []\<rparr>"

definition main_run ::
  "string list \<Rightarrow> bool \<Rightarrow> (nat \<Rightarrow> device) \<Rightarrow> epoll_result list \<Rightarrow> string \<Rightarrow> (int option \<times> bstate) option" where
  "main_run argv epoll_ok dev ws content =
     (case main_bright argv of
        ListDevices \<Rightarrow> map_option (\<lambda>n. (Some 0, bstate_init content 0)) (open_events True False dev 0 0 0)
      | Usage \<Rightarrow> Some (Some 1, bstate_init content 0)
      | BadRange \<Rightarrow> Some (Some 1, bstate_init content 0)
      | Run c \<Rightarrow>
          if \<not> epoll_ok then Some (Some 1, bstate_init content 0)
          else (case open_events False (b_all c) dev 0 0 0 of
                  None \<Rightarrow> None
                | Some valid \<Rightarrow>
                    if valid < 1 then Some (Some 0, bstate_init content valid)
                    else epoll_loop c ws (bstate_init content valid)))"

text \<open>A text that \<open>handle_message\<close> may write.\<close>

definition in_range_text :: "bconf \<Rightarrow> string \<Rightarrow> bool" where
  "in_range_text c s \<longleftrightarrow> b_min c \<le> atoi_glibc s \<and> atoi_glibc s \<le> b_max c \<and> s = show_int (atoi_glibc s)"

definition puts_ok :: "bconf \<Rightarrow> bstate \<Rightarrow> bool" where
  "puts_ok c s \<longleftrightarrow> list_all (in_range_text c) (bs_put s)"

lemma handle_key_ok:
  assumes "main_bright argv = Run c" and "puts_ok c s"
  shows "puts_ok c (handle_key c s m)"
  using assms(2) handle_message_text [OF assms(1)]
  by (auto simp: handle_key_def puts_ok_def in_range_text_def split: prod.split option.split)

lemma handle_keys_ok:
  assumes "main_bright argv = Run c"
  shows "puts_ok c s \<Longrightarrow> puts_ok c (foldl (handle_key c) s ms)"
  by (induction ms arbitrary: s) (simp_all add: handle_key_ok [OF assms])

lemma handle_ready_ok:
  assumes "main_bright argv = Run c" and "puts_ok c s" and "handle_ready c r s = Some s'"
  shows "puts_ok c s'"
proof -
  from assms(3) obtain ms where "bs_put s' = bs_put (foldl (handle_key c) s ms)"
    by (auto simp: handle_ready_def Let_def split: option.splits if_splits)
  with handle_keys_ok [OF assms(1,2), of ms] show ?thesis by (simp add: puts_ok_def)
qed

lemma epoll_round_run_opt: "epoll_round c rs s = run_opt (\<lambda>s r. handle_ready c r s) s rs"
  by (induction rs arbitrary: s) (simp_all split: option.split)

interpretation key_loop: partial_machine "\<lambda>s r. handle_ready c r s" "\<lambda>s. (\<exists>argv. main_bright argv = Run c) \<longrightarrow> puts_ok c s"
  by unfold_locales (blast intro: handle_ready_ok)

lemma epoll_round_ok:
  "main_bright argv = Run c \<Longrightarrow> puts_ok c s \<Longrightarrow> epoll_round c rs s = Some s' \<Longrightarrow> puts_ok c s'"
  using key_loop.run_opt_good [of c s rs s'] by (auto simp: epoll_round_run_opt)

lemma epoll_loop_ok:
  assumes "main_bright argv = Run c"
  shows "puts_ok c s \<Longrightarrow> epoll_loop c ws s = Some (code, s') \<Longrightarrow> puts_ok c s'"
  by (induction ws arbitrary: s)
    (auto split: option.splits epoll_result.splits if_splits dest: epoll_round_ok [OF assms])

lemma handle_fd_defined:
  "0 \<le> done \<Longrightarrow> EvEINTR \<notin> set rs \<Longrightarrow> \<exists>r. handle_fd rs buf done blocking msgs = Some r"
  by (induction rs arbitrary: buf "done" blocking msgs) (auto simp: Let_def split: ev_read.split)

text \<open>No read of a device is interrupted by a signal.\<close>

definition no_eintr :: "epoll_result \<Rightarrow> bool" where
  "no_eintr w = (case w of Ready rs \<Rightarrow> list_all (\<lambda>r. EvEINTR \<notin> set (rd_reads r)) rs | _ \<Rightarrow> True)"

lemma handle_ready_defined:
  "EvEINTR \<notin> set (rd_reads r) \<Longrightarrow> handle_ready c r s \<noteq> None"
  using handle_fd_defined [of 0 "rd_reads r" "rd_buf r" "bs_blocking s (rd_fd r)" "[]"]
  by (auto simp: handle_ready_def Let_def)

lemma epoll_round_defined:
  "list_all (\<lambda>r. EvEINTR \<notin> set (rd_reads r)) rs \<Longrightarrow> \<exists>s'. epoll_round c rs s = Some s'"
  unfolding epoll_round_run_opt
  by (rule key_loop.run_opt_returns) (simp add: list_all_iff handle_ready_defined del: not_None_eq)

lemma epoll_loop_defined: "list_all no_eintr ws \<Longrightarrow> \<exists>r. epoll_loop c ws s = Some r"
proof (induction ws arbitrary: s)
  case (Cons w ws)
  show ?case
  proof (cases w)
    case (Ready rs)
    with Cons.prems obtain s' where "epoll_round c rs s = Some s'"
      using epoll_round_defined [of rs c s] by (auto simp: no_eintr_def)
    with Ready Cons show ?thesis by simp
  qed (use Cons in simp_all)
qed simp

lemma open_events_returns:
  assumes "\<forall>i \<ge> n. dev i = NoEntry"
  shows "\<exists>k. open_events listing all dev i fails opened = Some k"
proof (induction "(n - i) * 11 + (10 - fails)" arbitrary: i fails opened rule: less_induct)
  case less
  show ?case
  proof (cases "dev_step listing all (dev i) fails opened")
    case None
    then show ?thesis by (subst open_events.simps) simp
  next
    case (Some p)
    obtain fails' opened' where p: "p = (fails', opened')" by fastforce
    have "(n - Suc i) * 11 + (10 - fails') < (n - i) * 11 + (10 - fails)"
    proof (cases "i < n")
      case True
      then have "n - i = Suc (n - Suc i)" by simp
      then show ?thesis by simp
    next
      case False
      with assms Some p show ?thesis by (auto split: if_splits)
    qed
    from less.hyps [OF this, of opened'] Some p show ?thesis by (subst open_events.simps) simp
  qed
qed

text \<open>
  C30: the program as a whole, on any arguments, any finite set of devices and any sequence of
  answers of the system in which no read of a device is interrupted, never leaves its event buffer,
  and every text that it writes to the brightness file is a decimal number between the minimum and the
  maximum of its arguments.
\<close>

theorem main_run_in_range:
  assumes "\<forall>i \<ge> n. dev i = NoEntry" and "list_all no_eintr ws"
  shows "\<exists>code s. main_run argv epoll_ok dev ws content = Some (code, s) \<and>
    list_all (\<lambda>t. \<exists>c. main_bright argv = Run c \<and> b_min c \<le> atoi_glibc t \<and> atoi_glibc t \<le> b_max c \<and>
      t = show_int (atoi_glibc t)) (bs_put s)"
proof (cases "main_bright argv")
  case ListDevices
  with open_events_returns [OF assms(1), of True False 0 0 0] show ?thesis
    by (auto simp: main_run_def bstate_init_def)
next
  case (Run c)
  obtain k where k: "open_events False (b_all c) dev 0 0 0 = Some k"
    using open_events_returns [OF assms(1)] by blast
  obtain code s where run: "epoll_loop c ws (bstate_init content k) = Some (code, s)"
    using epoll_loop_defined [OF assms(2)] by fastforce
  then have "puts_ok c s" by (rule epoll_loop_ok [OF Run, rotated]) (simp add: puts_ok_def bstate_init_def)
  with Run k run show ?thesis
    by (auto simp: main_run_def puts_ok_def in_range_text_def bstate_init_def list_all_iff)
qed (auto simp: main_run_def bstate_init_def)

definition up_bytes :: "byte list" where
  "up_bytes = replicate 16 0 @ [1, 0, 225, 0, 1, 0, 0, 0]"

definition example_io :: msg_io where
  "example_io = \<lparr>mi_read = (\<lambda>t. \<lparr>fr_open = True, fr_results = [ReadBytes t]\<rparr>), mi_open = True, mi_writes = [Wrote 3]\<rparr>"

definition example_ready :: ready where
  "example_ready = \<lparr>rd_fd = 4, rd_buf = replicate 24 7, rd_reads = [EvBytes (take 10 up_bytes), EvBytes (drop 10 up_bytes), EvEAGAIN],
     rd_io = (\<lambda>i. example_io), rd_removed = True\<rparr>"

definition example_devices :: "nat \<Rightarrow> device" where
  "example_devices i = (if i = 2 then Dev (Some ''Video Bus'') True else NoEntry)"

lemma example_devices_found: "open_events False False example_devices 0 0 0 = Some 1"
  by (simp add: open_events.simps example_devices_def)

lemma example_ready_puts:
  "handle_ready example_bconf example_ready (bstate_init (show_int 500) 1)
     = Some (bstate_init (show_int 500) 1\<lparr>bs_content := show_int 100, bs_put := [show_int 100]\<rparr>)"
proof -
  have "decode_event up_bytes = up_key"
    by (simp add: decode_event_def up_bytes_def up_key_def u16_at_def u32_at_def nth_append)
  moreover have "handle_message example_bconf \<lparr>fr_open = True, fr_results = [ReadBytes (show_int 500)]\<rparr> up_key
      = Some (show_int 100)"
    using handle_message_key [of "show_int 500" 500 "[]" up_key True example_bconf]
    by (simp add: up_key_def example_bconf_def new_brightness_def s32_def)
  moreover have "handle_fd (rd_reads example_ready) (rd_buf example_ready) 0 False [] = Some (True, False, [up_bytes])"
    by (simp add: example_ready_def up_bytes_def EVSIZE_def Let_def flip: replicate_add)
  moreover have "length (show_int 100) = 3" by (simp add: show_int_def show_nat.simps)
  ultimately show ?thesis
    by (simp add: handle_ready_def bstate_init_def handle_key_def Let_def example_ready_def example_io_def fun_upd_idem_iff
        file_put_contents_def show_int_def show_nat.simps)
qed

theorem main_run_in_range_witness:
  "\<exists>code s. main_run [''prog'', ''f'', ''10'', ''100'', ''10''] True example_devices
      [WaitEINTR, Ready [example_ready]] (show_int 500) = Some (code, s) \<and> bs_put s = [show_int 100] \<and>
    list_all (\<lambda>t. 10 \<le> atoi_glibc t \<and> atoi_glibc t \<le> 100 \<and> t = show_int (atoi_glibc t)) (bs_put s)"
proof -
  have devices: "\<forall>i \<ge> 3. example_devices i = NoEntry" by (simp add: example_devices_def)
  have quiet: "list_all no_eintr [WaitEINTR, Ready [example_ready]]"
    by (simp add: no_eintr_def example_ready_def)
  have b_all: "\<not> b_all example_bconf" by (simp add: example_bconf_def)
  have run: "main_run [''prog'', ''f'', ''10'', ''100'', ''10''] True example_devices
      [WaitEINTR, Ready [example_ready]] (show_int 500)
    = Some (None, bstate_init (show_int 500) 1\<lparr>bs_content := show_int 100, bs_put := [show_int 100]\<rparr>)"
    using example_devices_found example_ready_puts by (simp add: main_run_def example_bconf_start b_all)
  from main_run_in_range [OF devices quiet, of "[''prog'', ''f'', ''10'', ''100'', ''10'']" True "show_int 500"]
  show ?thesis by (simp add: run example_bconf_start) (simp add: example_bconf_def)
qed

end
