(* ===== verification/SmallTools.thy ===== *)
theory SmallTools
  imports CLib
begin

section \<open>Small command line tools\<close>

text \<open>
  \<^item> \<open>usb-patcher.c\<close> of the vmware modules: finds one instruction sequence in a program file and
    changes one byte of it. The version in \<open>vmware16\<close> and the common version of \<open>vmware17\<close> and
    \<open>vmware25H2\<close> differ in the sequence and the byte (\<open>patch16\<close>, \<open>patch17\<close>).
  \<^item> \<open>run-virt/fwtool/main.c\<close>: the wrapper that runs the firewall script as root.
  \<^item> \<open>rdns/rdns.c\<close>: reverse name lookup.
  \<^item> \<open>idleaction/xprintidle.c\<close> and \<open>xprintlocktime.c\<close>: idle time and lock time of the X session.

  The answers of the system, the resolver and the X server are arguments.
\<close>

subsection \<open>The patcher\<close>

record patch_cfg =
  pc_pattern :: "byte list"
  pc_skip :: nat
  pc_offset :: nat
  pc_value :: byte

definition patch16 :: patch_cfg where
  "patch16 = \<lparr>pc_pattern = [0x41, 0x56, 0x41, 0x55, 0x41, 0x54, 0x41, 0x89, 0xf5, 0x55, 0x53, 0x48, 0x89,
     0xfd, 0xbf, 0x0d, 0x00, 0x00, 0x00], pc_skip = 19, pc_offset = 8, pc_value = 0xfd\<rparr>"

definition patch17 :: patch_cfg where
  "patch17 = \<lparr>pc_pattern = [0x45, 0x89, 0x3c, 0x24, 0x49, 0x8d, 0x7c, 0x24, 0x04, 0x48, 0x8d, 0x55, 0x01,
     0x4c, 0x89, 0xf6], pc_skip = 16, pc_offset = 2, pc_value = 0x34\<rparr>"

text \<open>\<open>memmem\<close>: the position of the first occurrence, counted from \<open>i\<close>.\<close>

fun memmem :: "byte list \<Rightarrow> byte list \<Rightarrow> nat \<Rightarrow> nat option" where
  "memmem pat [] i = (if pat = [] then Some i else None)"
| "memmem pat (b # bs) i = (if prefix pat (b # bs) then Some i else memmem pat bs (Suc i))"

definition findSequence :: "patch_cfg \<Rightarrow> byte list \<Rightarrow> nat \<Rightarrow> nat option" where
  "findSequence cfg buffer offset = memmem (pc_pattern cfg) (drop offset buffer) offset"

text \<open>
  The answer of \<open>mmap\<close>. The code compares it with NULL; the failure value of the call is
  \<open>MAP_FAILED\<close>, which passes that test, and reading through it kills the process (unless nothing
  is read, because the length is zero).
\<close>

datatype mmap_result = MapNull | MapFailed | Mapped

text \<open>
  The exit code (\<open>None\<close> when the process is killed) and the new content of the file. Only whole
  pages are mapped. The messages to the terminal are left out.
\<close>

definition main_patch ::
  "patch_cfg \<Rightarrow> nat \<Rightarrow> bool \<Rightarrow> bool \<Rightarrow> mmap_result \<Rightarrow> byte list \<Rightarrow> int option \<times> byte list" where
  "main_patch cfg page opened seeked mapped file =
     (if \<not> opened then (Some 1, file)
      else if \<not> seeked then (Some 2, file)
      else let flen = length file - length file mod page
      in if mapped = MapNull then (Some 3, file)
         else if mapped = MapFailed \<and> flen \<noteq> 0 then (None, file)
         else let exe = take flen file
         in case findSequence cfg exe 0 of
              None \<Rightarrow> (Some 4, file)
            | Some offset \<Rightarrow>
                if findSequence cfg exe (offset + pc_skip cfg) \<noteq> None then (Some 5, file)
                else (Some 0, file[offset + pc_offset cfg := pc_value cfg]))"

text \<open>The three programs.\<close>

definition usb_patcher_vmware16 ::
  "nat \<Rightarrow> bool \<Rightarrow> bool \<Rightarrow> mmap_result \<Rightarrow> byte list \<Rightarrow> int option \<times> byte list" where
  "usb_patcher_vmware16 = main_patch patch16"

definition usb_patcher_vmware17 ::
  "nat \<Rightarrow> bool \<Rightarrow> bool \<Rightarrow> mmap_result \<Rightarrow> byte list \<Rightarrow> int option \<times> byte list" where
  "usb_patcher_vmware17 = main_patch patch17"

definition usb_patcher_vmware25H2 ::
  "nat \<Rightarrow> bool \<Rightarrow> bool \<Rightarrow> mmap_result \<Rightarrow> byte list \<Rightarrow> int option \<times> byte list" where
  "usb_patcher_vmware25H2 = main_patch patch17"

subsection \<open>The firewall wrapper\<close>

definition MAXARGS :: nat where
  "MAXARGS = 10"

text \<open>
  The argument array: \<open>None\<close> is NULL. Program arguments beyond \<open>argv\<close> read as NULL.
\<close>

fun copy_args :: "string list \<Rightarrow> nat \<Rightarrow> nat \<Rightarrow> string option list \<Rightarrow> string option list" where
  "copy_args argv 0 i vnargv = vnargv"
| "copy_args argv (Suc n) i vnargv =
     (let arg = (if i < length argv then Some (argv ! i) else None);
          vnargv' = vnargv[i + 1 := arg]
      in if arg = None then vnargv' else copy_args argv n (Suc i) vnargv')"

definition fw_script :: string where
  "fw_script = ''/opt/openslx/vmchooser/scripts/set-firewall''"

definition fw_env :: "string list" where
  "fw_env = [''PATH=/usr/local/sbin:/usr/local/bin:/usr/sbin:/usr/bin:/opt/openslx/sbin:/opt/openslx/bin'',
     ''HOME=/root'', ''LC_ALL=C.UTF-8'', ''LANG=C.UTF-8'']"

text \<open>
  The effects in order. \<open>execve\<close> gets the program, the arguments up to the first NULL and the
  environment; it does not return when it succeeds, and the program ends with 0 when it fails.
\<close>

datatype fw_action =
    Puts string
  | Setresuid int int int
  | Setregid int int
  | Execve string "string list" "string list"

definition main_fwtool :: "string list \<Rightarrow> int \<times> fw_action list" where
  "main_fwtool argv =
     (if length argv < 2 then (1, [Puts (''Nee'' @ [CHR ''\<newline>''])])
      else let vnargv = [Some ''bash'', Some fw_script] @ replicate (MAXARGS - 2) None;
               vnargv' = (copy_args argv (MAXARGS - 3) 1 vnargv)[MAXARGS - 1 := None]
           in (0, [Setresuid 0 0 0, Setregid 0 0,
                   Execve ''/bin/bash'' (map the (takeWhile (\<lambda>a. a \<noteq> None) vnargv')) fw_env]))"

subsection \<open>Reverse lookup\<close>

text \<open>
  \<open>pton\<close> is the parsed address, \<open>None\<close> for an invalid text; \<open>stale\<close> the content of the address
  variable before the call.
\<close>

definition main_rdns ::
  "(string \<Rightarrow> u32 option) \<Rightarrow> u32 \<Rightarrow> (u32 \<Rightarrow> string option option) \<Rightarrow> string list \<Rightarrow> int \<times> string" where
  "main_rdns pton stale lookup argv =
     (if length argv \<noteq> 2 then (1, [])
      else let addr = (case pton (argv ! 1) of None \<Rightarrow> stale | Some a \<Rightarrow> a)
           in case lookup addr of
                None \<Rightarrow> (2, [])
              | Some None \<Rightarrow> (3, [])
              | Some (Some name) \<Rightarrow> (0, name @ [CHR ''\<newline>'']))"

subsection \<open>Idle time\<close>

datatype dpms_mode = DPMSModeOn | DPMSModeStandby | DPMSModeSuspend | DPMSModeOff | DPMSOther u16

record dpms =
  dpms_query :: bool
  dpms_capable :: bool
  dpms_standby :: u16
  dpms_suspend :: u16
  dpms_off :: u16
  dpms_state :: dpms_mode
  dpms_onoff :: bool

definition dpms_add :: "u64 \<Rightarrow> int \<Rightarrow> u64" where
  "dpms_add idle ms = (if idle < ucast (word_of_int ms :: u32) then idle + word_of_int ms else idle)"

definition workaroundCreepyXServer :: "dpms \<Rightarrow> u64 \<Rightarrow> u64" where
  "workaroundCreepyXServer d idle =
     (if dpms_query d \<and> dpms_capable d \<and> dpms_onoff d then
        (case dpms_state d of
           DPMSModeStandby \<Rightarrow> dpms_add idle (uint (dpms_standby d) * 1000)
         | DPMSModeSuspend \<Rightarrow> dpms_add idle ((uint (dpms_suspend d) + uint (dpms_standby d)) * 1000)
         | DPMSModeOff \<Rightarrow>
             dpms_add idle ((uint (dpms_off d) + uint (dpms_suspend d) + uint (dpms_standby d)) * 1000)
         | DPMSModeOn \<Rightarrow> idle
         | DPMSOther n \<Rightarrow> idle)
      else idle)"

text \<open>
  The four calls of the program, and the exit code and the output. The correction above is not
  applied any more: its call is commented out.
\<close>

record idle_env =
  ie_display :: bool
  ie_extension :: bool
  ie_alloc :: bool
  ie_info :: "u64 option"

definition main_xprintidle :: "string list \<Rightarrow> idle_env \<Rightarrow> int \<times> string" where
  "main_xprintidle argv e =
     (if length argv \<noteq> 1 then (1, [])
      else if \<not> ie_display e then (1, [])
      else if \<not> ie_extension e then (1, [])
      else if \<not> ie_alloc e then (1, [])
      else case ie_info e of
        None \<Rightarrow> (1, [])
      | Some idle \<Rightarrow> (0, show_nat (unat idle) @ [CHR ''\<newline>'']))"

subsection \<open>Lock time\<close>

text \<open>
  A child of the root window: the X error raised while it was asked for its version property,
  whether the query succeeded, and the property if the window has it. The handler installed during
  the query takes note of \<open>BadWindow\<close> and hands every other error to the previous handler, which is
  Xlib's own and ends the program with exit code 1.
\<close>

datatype xerror = NoError | BadWindow | OtherError

record xwin =
  xw_error :: xerror
  xw_success :: bool
  xw_version :: "string option"

record lock_env =
  le_display :: bool
  le_tree :: "(nat \<times> nat \<times> xwin list) option"
  le_root :: nat
  le_class :: "nat \<Rightarrow> bool"
  le_status :: "(bool \<times> u64 list) option"
  le_lock :: u64

text \<open>
  How the search ends: the program aborts, or exits in Xlib's handler, or a window and its version
  (the index of the window in the list of children stands for the window), or none.
\<close>

datatype search = Aborted | Exited | Found nat string | NotFound

fun search_kids :: "xwin list \<Rightarrow> nat \<Rightarrow> search" where
  "search_kids [] i = NotFound"
| "search_kids (w # ws) i =
     (if xw_error w = OtherError then Exited
      else let status = (xw_error w \<noteq> BadWindow \<and> xw_success w)
      in case xw_version w of
           Some v \<Rightarrow> if status then Found i v else search_kids ws (Suc i)
         | None \<Rightarrow> search_kids ws (Suc i))"

text \<open>
  \<open>le_tree\<close> is the answer of \<open>XQueryTree\<close>: the root window it names, the parent (0 for none) and the
  children.
\<close>

definition find_screensaver_window :: "lock_env \<Rightarrow> search" where
  "find_screensaver_window e =
     (case le_tree e of
        None \<Rightarrow> Aborted
      | Some (root2, parent, kids) \<Rightarrow>
          if le_root e \<noteq> root2 then Aborted
          else if parent \<noteq> 0 then Aborted
          else search_kids kids 0)"

text \<open>
  \<open>le_status\<close> is the status property of the root window: whether it is of type INTEGER, and its
  items (format 32, that is, one \<open>long\<close> each). The result is the exit code, \<open>None\<close> when the program
  aborts, and the output.
\<close>

definition main_xprintlocktime :: "lock_env \<Rightarrow> int option \<times> string" where
  "main_xprintlocktime e =
     (if \<not> le_display e then (Some 1, [])
      else case find_screensaver_window e of
        Aborted \<Rightarrow> (None, [])
      | Exited \<Rightarrow> (Some 1, [])
      | NotFound \<Rightarrow> (Some 1, [])
      | Found window v \<Rightarrow>
          if v = [] then (Some 1, [])
          else if \<not> le_class e window then (Some 1, [])
          else (case le_status e of
            None \<Rightarrow> (Some 1, [])
          | Some (isint, items) \<Rightarrow>
              if \<not> isint \<or> length items < 3 then (Some 1, [CHR ''\<newline>''])
              else if sint (items ! 1) \<le> 666000000 then (Some 1, [])
              else if items ! 0 = le_lock e
                   then (Some 0, show_nat (unat (items ! 1)) @ [CHR ''\<newline>''])
              else (Some 1, [])))"

subsection \<open>Properties of the patcher\<close>

definition occurs :: "byte list \<Rightarrow> byte list \<Rightarrow> nat \<Rightarrow> bool" where
  "occurs pat buf k \<longleftrightarrow> take (length pat) (drop k buf) = pat"

lemma occurs_prefix: "occurs pat buf k \<longleftrightarrow> prefix pat (drop k buf)"
  by (metis append_eq_conv_conj occurs_def prefix_def take_is_prefix)

lemma occurs_length: "occurs pat buf k \<Longrightarrow> pat \<noteq> [] \<Longrightarrow> k + length pat \<le> length buf"
  by (metis Nat.le_diff_conv2 add.commute drop_all length_drop nat_le_linear occurs_prefix prefix_Nil prefix_length_le)

lemma memmem_Some:
  "pat \<noteq> [] \<Longrightarrow> memmem pat bs i = Some k \<Longrightarrow>
     i \<le> k \<and> occurs pat bs (k - i) \<and> (\<forall>j < k - i. \<not> occurs pat bs j)"
proof (induction bs arbitrary: i)
  case (Cons b bs)
  show ?case
  proof (cases "prefix pat (b # bs)")
    case True
    with Cons.prems show ?thesis by (simp add: occurs_prefix)
  next
    case False
    with Cons have IH: "Suc i \<le> k \<and> occurs pat bs (k - Suc i) \<and> (\<forall>j < k - Suc i. \<not> occurs pat bs j)"
      by simp
    then have "k - i = Suc (k - Suc i)" by linarith
    with IH False show ?thesis by (auto simp: occurs_prefix less_Suc_eq_0_disj)
  qed
qed (simp split: if_splits)

lemma memmem_None:
  "pat \<noteq> [] \<Longrightarrow> memmem pat bs i = None \<Longrightarrow> \<not> occurs pat bs j"
proof (induction bs arbitrary: i j)
  case Nil
  then show ?case by (simp add: occurs_prefix)
next
  case (Cons b bs)
  then show ?case by (cases j) (auto simp: occurs_prefix split: if_splits)
qed

lemma findSequence_Some:
  assumes "findSequence cfg buf off = Some k" and "pc_pattern cfg \<noteq> []"
  shows "off \<le> k \<and> occurs (pc_pattern cfg) buf k \<and> (\<forall>j. off \<le> j \<and> j < k \<longrightarrow> \<not> occurs (pc_pattern cfg) buf j)"
proof -
  note M = memmem_Some [OF assms(2) assms(1) [unfolded findSequence_def]]
  have "\<not> occurs (pc_pattern cfg) buf j" if "off \<le> j" "j < k" for j
  proof -
    from that have "\<not> occurs (pc_pattern cfg) (drop off buf) (j - off)" using M by simp
    then show ?thesis using that by (simp add: occurs_def)
  qed
  moreover have "drop (k - off) (drop off buf) = drop k buf" using M by simp
  ultimately show ?thesis using M by (simp only: occurs_def) blast
qed

lemma findSequence_None:
  assumes "findSequence cfg buf off = None" and "pc_pattern cfg \<noteq> []" and "off \<le> j"
  shows "\<not> occurs (pc_pattern cfg) buf j"
  using memmem_None [OF assms(2) assms(1) [unfolded findSequence_def], of "j - off"] assms(3)
  by (simp add: occurs_def)

text \<open>
  The patcher changes the file only when it reports success, and then exactly one byte of the
  first occurrence of the sequence, which lies in the mapped pages and has no second occurrence
  behind it.
\<close>

theorem main_patch_one_byte:
  assumes "main_patch cfg page opened seeked mapped file = (code, file')" and "pc_pattern cfg \<noteq> []"
  shows "(code \<noteq> Some 0 \<longrightarrow> file' = file) \<and>
    (code = Some 0 \<longrightarrow> (\<exists>k. file' = file[k + pc_offset cfg := pc_value cfg] \<and>
       occurs (pc_pattern cfg) (take (length file - length file mod page) file) k \<and>
       (\<forall>j. j < k \<or> k + pc_skip cfg \<le> j \<longrightarrow>
          \<not> occurs (pc_pattern cfg) (take (length file - length file mod page) file) j)))"
proof -
  let ?exe = "take (length file - length file mod page) file"
  show ?thesis
  proof (cases "code = Some 0")
    case False
    with assms(1) show ?thesis
      by (auto simp: main_patch_def Let_def split: if_splits option.splits)
  next
    case True
    with assms(1) obtain k where k: "findSequence cfg ?exe 0 = Some k"
        "findSequence cfg ?exe (k + pc_skip cfg) = None" "file' = file[k + pc_offset cfg := pc_value cfg]"
      by (auto simp: main_patch_def Let_def split: if_splits option.splits)
    from findSequence_Some [OF k(1) assms(2)] findSequence_None [OF k(2) assms(2)] k(3) True
    show ?thesis by (intro conjI) (auto intro!: exI [of _ k])
  qed
qed

theorem main_patch_one_byte_witness:
  "main_patch patch17 1 True True Mapped (pc_pattern patch17) = (Some 0, (pc_pattern patch17)[2 := 0x34])"
proof -
  obtain code file' where run: "main_patch patch17 1 True True Mapped (pc_pattern patch17) = (code, file')"
    by fastforce
  moreover have "code = Some 0"
    using run by (simp add: main_patch_def findSequence_def patch17_def)
  moreover have "pc_pattern patch17 \<noteq> []" by (simp add: patch17_def)
  ultimately obtain k where k: "file' = (pc_pattern patch17)[k + 2 := 0x34]"
      "occurs (pc_pattern patch17) (pc_pattern patch17) k"
    using main_patch_one_byte [OF run] by (auto simp: patch17_def)
  from occurs_length [OF k(2)] have "k = 0" by (simp add: patch17_def)
  with k run \<open>code = Some 0\<close> show ?thesis by (simp add: numeral_2_eq_2)
qed

text \<open>
  The changed sequence overlaps the original one nowhere, at no distance; this is a property of the
  two sequences and decided by computation.
\<close>

definition patched_pattern :: "patch_cfg \<Rightarrow> byte list" where
  "patched_pattern cfg = (pc_pattern cfg)[pc_offset cfg := pc_value cfg]"

definition clash_free :: "patch_cfg \<Rightarrow> bool" where
  "clash_free cfg \<longleftrightarrow>
     (let p = pc_pattern cfg; p' = patched_pattern cfg; n = length p
      in p \<noteq> p' \<and> pc_skip cfg = n \<and> pc_offset cfg < n \<and>
         list_all (\<lambda>s. drop s p' \<noteq> take (n - s) p \<and> drop s p \<noteq> take (n - s) p') [1..<n])"

lemma clash_free_patch16: "clash_free patch16"
  by (simp add: clash_free_def patched_pattern_def patch16_def upt_rec)

lemma clash_free_patch17: "clash_free patch17"
  by (simp add: clash_free_def patched_pattern_def patch17_def upt_rec)

lemma window_overlap:
  assumes "occurs a buf k" and "occurs b buf (k + s)" and "length a = length b" and "s \<le> length a"
  shows "drop s a = take (length a - s) b"
proof -
  have "drop s a = drop s (take (length a) (drop k buf))" using assms(1) by (simp add: occurs_def)
  also have "\<dots> = take (length a - s) (drop (k + s) buf)" by (simp add: drop_take add.commute)
  also have "\<dots> = take (length a - s) (take (length b) (drop (k + s) buf))"
    using assms(3) by (simp add: min_def)
  also have "\<dots> = take (length a - s) b" using assms(2) by (simp add: occurs_def)
  finally show ?thesis .
qed

lemma patched_occurs:
  assumes "occurs (pc_pattern cfg) buf k" and "pc_offset cfg < length (pc_pattern cfg)"
  shows "occurs (patched_pattern cfg) (buf[k + pc_offset cfg := v]) k \<longleftrightarrow>
    patched_pattern cfg = (pc_pattern cfg)[pc_offset cfg := v]"
proof -
  have "take (length (pc_pattern cfg)) (drop k (buf[k + pc_offset cfg := v]))
      = (take (length (pc_pattern cfg)) (drop k buf))[pc_offset cfg := v]"
    using assms(2) by (simp add: drop_update_swap take_update_swap)
  then show ?thesis using assms(1) by (auto simp: occurs_def patched_pattern_def)
qed

lemma outside_occurs:
  assumes "i < q \<or> q + length pat \<le> i"
  shows "occurs pat (buf[i := v]) q = occurs pat buf q"
proof -
  have "take (length pat) (drop q (buf[i := v])) = take (length pat) (drop q buf)"
    using assms
  proof
    assume "i < q" then show ?thesis by simp
  next
    assume "q + length pat \<le> i"
    then show ?thesis by (simp add: drop_update_swap)
  qed
  then show ?thesis by (simp add: occurs_def)
qed

lemma clash_free_shift:
  assumes "clash_free cfg" and "occurs a buf k" and "occurs b buf q" and "k < q" and "q < k + length a"
    and "{a, b} = {pc_pattern cfg, patched_pattern cfg}" and "a \<noteq> b"
  shows False
proof -
  have len: "length (patched_pattern cfg) = length (pc_pattern cfg)" by (simp add: patched_pattern_def)
  with assms(6) have same: "length a = length (pc_pattern cfg)" "length b = length (pc_pattern cfg)"
    by (auto simp: doubleton_eq_iff)
  define s where "s = q - k"
  with assms(4,5) same have s: "q = k + s" "s \<in> set [1..<length (pc_pattern cfg)]" by auto
  have "drop s a = take (length a - s) b"
    by (rule window_overlap [OF assms(2)]) (use assms(3) s same in auto)
  moreover have "drop s (patched_pattern cfg) \<noteq> take (length (pc_pattern cfg) - s) (pc_pattern cfg) \<and>
      drop s (pc_pattern cfg) \<noteq> take (length (pc_pattern cfg) - s) (patched_pattern cfg)"
    using assms(1) s(2) by (auto simp: clash_free_def Let_def list_all_iff)
  ultimately show False using assms(6) same by (auto simp: doubleton_eq_iff)
qed

lemma patched_gone:
  assumes cf: "clash_free cfg" and k: "occurs (pc_pattern cfg) buf k"
    and only: "\<And>j. j < k \<or> k + pc_skip cfg \<le> j \<Longrightarrow> \<not> occurs (pc_pattern cfg) buf j"
  shows "\<not> occurs (pc_pattern cfg) (buf[k + pc_offset cfg := pc_value cfg]) q"
    (is "\<not> occurs ?p ?buf' q")
proof
  assume q: "occurs ?p ?buf' q"
  have cfs: "pc_offset cfg < length ?p" "pc_skip cfg = length ?p" "?p \<noteq> patched_pattern cfg"
    and len: "length (patched_pattern cfg) = length ?p"
    using cf by (auto simp: clash_free_def patched_pattern_def Let_def)
  have pk: "occurs (patched_pattern cfg) ?buf' k"
    using patched_occurs [OF k cfs(1)] by (simp add: patched_pattern_def)
  consider "q = k" | "k < q" "q < k + length ?p" | "q < k" "k < q + length ?p"
    | "k + length ?p \<le> q" | "q < k" "q + length ?p \<le> k" using cfs(1) by linarith
  then show False
  proof cases
    case 1
    with q pk len cfs(3) show False by (simp add: occurs_def)
  next
    case 2
    with clash_free_shift [OF cf pk q] len cfs(3) show False by (simp add: insert_commute)
  next
    case 3
    with clash_free_shift [OF cf q pk] cfs(3) show False by simp
  next
    case 4
    with q cfs outside_occurs [of "k + pc_offset cfg" q ?p buf] only [of q] show False by simp
  next
    case 5
    with q outside_occurs [of "k + pc_offset cfg" q ?p buf] only [of q] show False by simp
  qed
qed

lemma main_patch_again:
  assumes "clash_free cfg" and "pc_pattern cfg \<noteq> []"
    and "main_patch cfg page True True Mapped file = (Some 0, file')"
  shows "main_patch cfg page True True Mapped file' = (Some 4, file')"
proof -
  let ?exe = "take (length file - length file mod page) file"
  note cf = assms(1) and ne = assms(2)
  from assms(3) obtain k where k: "findSequence cfg ?exe 0 = Some k"
      "findSequence cfg ?exe (k + pc_skip cfg) = None" "file' = file[k + pc_offset cfg := pc_value cfg]"
    by (auto simp: main_patch_def Let_def split: if_splits option.splits)
  have "\<not> occurs (pc_pattern cfg) (?exe[k + pc_offset cfg := pc_value cfg]) q" for q
    by (rule patched_gone [OF cf])
       (use findSequence_Some [OF k(1) ne] findSequence_None [OF k(2) ne] in auto)
  moreover have "take (length file' - length file' mod page) file' = ?exe[k + pc_offset cfg := pc_value cfg]"
    using k(3) by (simp add: take_update_swap)
  ultimately have "findSequence cfg (take (length file' - length file' mod page) file') 0 = None"
    using findSequence_Some [OF _ ne] by (metis option.exhaust)
  then show ?thesis by (simp add: main_patch_def Let_def)
qed

text \<open>
  C32: patching is safe to repeat: after a successful run of one of the three patchers on a file the
  sequence is gone, and another run reports that it was not found and leaves the file as it is.
\<close>

theorem main_patch_repeat:
  assumes "main \<in> {usb_patcher_vmware16, usb_patcher_vmware17, usb_patcher_vmware25H2}"
    and "main page True True Mapped file = (Some 0, file')"
  shows "main page True True Mapped file' = (Some 4, file')"
proof -
  from assms(1) obtain cfg where "main = main_patch cfg" "clash_free cfg" "pc_pattern cfg \<noteq> []"
    using clash_free_patch16 clash_free_patch17
    by (auto simp: usb_patcher_vmware16_def usb_patcher_vmware17_def usb_patcher_vmware25H2_def
        patch16_def patch17_def)
  with main_patch_again assms(2) show ?thesis by blast
qed

theorem main_patch_repeat_witness:
  "usb_patcher_vmware17 1 True True Mapped ((pc_pattern patch17)[2 := 0x34])
     = (Some 4, (pc_pattern patch17)[2 := 0x34])"
proof -
  have "usb_patcher_vmware17 1 True True Mapped (pc_pattern patch17) = (Some 0, (pc_pattern patch17)[2 := 0x34])"
    by (simp add: usb_patcher_vmware17_def main_patch_def findSequence_def patch17_def)
  then show ?thesis by (intro main_patch_repeat [of _ 1 "pc_pattern patch17"]) simp_all
qed

subsection \<open>Properties of the other tools\<close>

lemma copy_args_fill:
  "length pre = Suc i \<Longrightarrow> n \<le> m \<Longrightarrow>
     copy_args argv n i (pre @ replicate m None)
       = pre @ map Some (take n (drop i argv)) @ replicate (m - length (take n (drop i argv))) None"
proof (induction n arbitrary: i pre m)
  case (Suc n)
  then obtain m' where m: "m = Suc m'" by (cases m) auto
  show ?case
  proof (cases "i < length argv")
    case True
    have "(pre @ replicate m None)[i + 1 := Some (argv ! i)] = (pre @ [Some (argv ! i)]) @ replicate m' None"
      using Suc.prems(1) by (simp add: m list_update_append)
    with True Suc.IH [of "pre @ [Some (argv ! i)]" "Suc i" m'] Suc.prems show ?thesis
      by (simp add: m Let_def Cons_nth_drop_Suc [symmetric])
  next
    case False
    have "(pre @ replicate m None)[i + 1 := None] = pre @ replicate m None"
      using Suc.prems(1) by (simp add: m list_update_append)
    with False show ?thesis by (simp add: Let_def)
  qed
qed simp

lemma takeWhile_Some_replicate:
  "takeWhile (\<lambda>a. a \<noteq> None) (map Some xs @ replicate m None) = map Some xs"
  by (induction xs) (cases m, auto)

text \<open>
  C33: whatever its caller passes, the wrapper becomes root and then runs exactly the firewall script,
  with the first seven arguments, in a fixed environment; without an argument it does neither.
\<close>

theorem main_fwtool_exec:
  "main_fwtool argv =
     (if length argv < 2 then (1, [Puts (''Nee'' @ [CHR ''\<newline>''])])
      else (0, [Setresuid 0 0 0, Setregid 0 0,
        Execve ''/bin/bash'' ([''bash'', fw_script] @ take 7 (drop 1 argv)) fw_env]))"
proof -
  let ?args = "take 7 (drop 1 argv)"
  have "copy_args argv (MAXARGS - 3) 1 ([Some ''bash'', Some fw_script] @ replicate (MAXARGS - 2) None)
      = map Some ([''bash'', fw_script] @ ?args) @ replicate (8 - length ?args) None"
    by (subst copy_args_fill) (simp_all add: MAXARGS_def)
  moreover have "replicate (8 - length ?args) None
      = replicate (7 - length ?args) (None :: string option) @ [None]"
    by (simp add: replicate_append_same Suc_diff_le flip: replicate_Suc)
  then have "(map Some ([''bash'', fw_script] @ ?args) @ replicate (8 - length ?args) None)[MAXARGS - 1 := None]
      = map Some ([''bash'', fw_script] @ ?args) @ replicate (8 - length ?args) None"
    by (simp add: MAXARGS_def list_update_append min_def split: if_splits)
  ultimately show ?thesis
    unfolding main_fwtool_def Let_def by (simp only: takeWhile_Some_replicate) (simp add: comp_def)
qed

lemma dpms_add_bound:
  assumes "0 \<le> ms" and "ms \<le> 196605000"
  shows "unat idle \<le> unat (dpms_add idle ms) \<and> unat (dpms_add idle ms) \<le> unat idle + nat ms"
proof (cases "idle < ucast (word_of_int ms :: u32)")
  case True
  have a: "uint (ucast (word_of_int ms :: u32) :: u64) = ms"
    using assms by (simp add: uint_up_ucast is_up uint_word_of_int)
  have b: "uint (word_of_int ms :: u64) = ms"
    using assms by (simp add: uint_word_of_int)
  have lt: "uint idle < ms" using True a by (simp only: word_less_def)
  have "uint (idle + word_of_int ms) = (uint idle + uint (word_of_int ms :: u64)) mod 2 ^ 64"
    by (simp only: uint_word_ariths) simp
  then have "uint (idle + word_of_int ms) = (uint idle + ms) mod 2 ^ 64" by (simp only: b)
  also have "\<dots> = uint idle + ms"
    by (rule mod_pos_pos_trivial) (use lt assms in auto)
  finally have "unat (idle + word_of_int ms) = unat idle + nat ms"
    using assms(1) by (simp only: unat_eq_nat_uint nat_add_distrib [OF uint_ge_0 assms(1)])
  with True show ?thesis by (simp add: dpms_add_def)
qed (simp add: dpms_add_def)

lemma card16_bound: "0 \<le> uint (x :: u16) \<and> uint x \<le> 65535"
  using uint_lt2p [of x] by simp

text \<open>
  The correction of the idle time never wraps around, never makes it smaller, and makes it at
  most 196605 seconds longer.
\<close>

theorem workaroundCreepyXServer_bounds:
  "unat idle \<le> unat (workaroundCreepyXServer d idle) \<and>
   unat (workaroundCreepyXServer d idle) \<le> unat idle + 196605000"
proof -
  have "unat idle \<le> unat (dpms_add idle ms) \<and> unat (dpms_add idle ms) \<le> unat idle + 196605000"
    if "0 \<le> ms" "ms \<le> 196605000" for ms
    using dpms_add_bound [OF that, of idle] that(2) by linarith
  then show ?thesis
    using card16_bound [of "dpms_standby d"] card16_bound [of "dpms_suspend d"] card16_bound [of "dpms_off d"]
    by (auto simp: workaroundCreepyXServer_def split: dpms_mode.split)
qed

lemma search_kids_Found:
  "search_kids ws i = Found k v \<Longrightarrow>
     i \<le> k \<and> k - i < length ws \<and> xw_error (ws ! (k - i)) = NoError \<and> xw_version (ws ! (k - i)) = Some v"
proof (induction ws arbitrary: i)
  case (Cons w ws)
  show ?case
  proof (cases "search_kids ws (Suc i) = Found k v")
    case True
    from Cons.IH [OF this] have "Suc i \<le> k" "k - Suc i < length ws" by auto
    then have "k - i = Suc (k - Suc i)" by linarith
    with Cons.IH [OF True] show ?thesis by simp
  next
    case False
    with Cons.prems show ?thesis
      by (cases "xw_error w") (auto simp: Let_def split: option.splits if_splits)
  qed
qed simp

text \<open>
  The lock time is printed, with exit code 0, only when a screensaver window with a version and a
  class is there and the status of the root window says LOCK since a time after early 1991; what is
  printed is that time.
\<close>

theorem main_xprintlocktime_locked:
  assumes "main_xprintlocktime e = (Some 0, out)"
  shows "\<exists>kids k v items. le_tree e = Some (le_root e, 0, kids) \<and> k < length kids \<and>
    xw_error (kids ! k) = NoError \<and> xw_version (kids ! k) = Some v \<and> v \<noteq> [] \<and> le_class e k \<and>
    le_status e = Some (True, items) \<and> 3 \<le> length items \<and> items ! 0 = le_lock e \<and>
    666000000 < sint (items ! 1) \<and> out = show_nat (unat (items ! 1)) @ [CHR ''\<newline>'']"
proof -
  from assms obtain k v items where w: "find_screensaver_window e = Found k v" "v \<noteq> []" "le_class e k"
      and st: "le_status e = Some (True, items)" "3 \<le> length items" "items ! 0 = le_lock e"
        "666000000 < sint (items ! 1)" "out = show_nat (unat (items ! 1)) @ [CHR ''\<newline>'']"
    by (auto simp: main_xprintlocktime_def split: if_splits search.splits option.splits)
  from w(1) obtain kids where t: "le_tree e = Some (le_root e, 0, kids)" "search_kids kids 0 = Found k v"
    by (auto simp: find_screensaver_window_def split: if_splits option.splits)
  from search_kids_Found [OF t(2)] t(1) w(2,3) st show ?thesis by auto
qed

definition locked_session :: lock_env where
  "locked_session = \<lparr>le_display = True,
     le_tree = Some (1, 0, [\<lparr>xw_error = BadWindow, xw_success = True, xw_version = None\<rparr>,
       \<lparr>xw_error = NoError, xw_success = True, xw_version = Some ''5.4''\<rparr>]),
     le_root = 1, le_class = (\<lambda>k. k = 1), le_status = Some (True, [77, 1700000000, 0]), le_lock = 77\<rparr>"

theorem main_xprintlocktime_locked_witness:
  "main_xprintlocktime locked_session = (Some 0, show_nat 1700000000 @ [CHR ''\<newline>''])
     \<and> le_status locked_session = Some (True, [77, 1700000000, 0])"
proof -
  have run: "main_xprintlocktime locked_session = (Some 0, show_nat 1700000000 @ [CHR ''\<newline>''])"
    by (simp add: main_xprintlocktime_def find_screensaver_window_def locked_session_def)
  from main_xprintlocktime_locked [OF run] have "le_status locked_session = Some (True, [77, 1700000000, 0])"
    by (auto simp: locked_session_def)
  with run show ?thesis by simp
qed

end
