(* ===== verification/ParseEdid.thy ===== *)
theory ParseEdid
  imports CLib
begin

section \<open>The EDID parser (parse-edid.c, modes.h)\<close>

text \<open>
  The program reads the 128 bytes of a monitor's EDID and, if there is one, a 128-byte extension
  block from its standard input, and prints a monitor section for the X server: name, vendor, limits
  and one mode line per detailed timing.

  The decoding functions read bytes through a function from positions to bytes, because the loop
  over the extension block can leave the block: \<open>extmem extb beyond\<close> is the block followed by
  whatever memory holds behind it. \<open>modearray\<close> is the list of the texts in the 128 buffers. The C
  code appends to such a text by printing the buffer into itself; the model appends.

  The two \<open>%.2f\<close> conversions print a number of hundredths: \<open>fixed2\<close>. (The floating point value is the
  one nearest to a number with two decimals, so that rounding it to two decimals gives that number.)
  What goes to the standard error stream is left out.
\<close>

subsection \<open>Text\<close>

definition tab :: string where
  "tab = [CHR 0x09]"

definition nl :: string where
  "nl = [CHR ''\<newline>'']"

definition quoted :: "string \<Rightarrow> string" where
  "quoted s = [CHR 0x22] @ s @ [CHR 0x22]"

definition fixed2 :: "nat \<Rightarrow> string" where
  "fixed2 n = show_nat (n div 100) @ ''.'' @ [digit_char (n div 10 mod 10), digit_char (n mod 10)]"

subsection \<open>Data\<close>

record edid_st =
  native :: int
  currentmode :: nat
  modearray :: "string list"

definition edid_init :: edid_st where
  "edid_init = \<lparr>native = - 1, currentmode = 0, modearray = replicate 128 []\<rparr>"

type_synonym mem = "nat \<Rightarrow> byte"

definition extmem :: "byte list \<Rightarrow> mem \<Rightarrow> mem" where
  "extmem extb beyond i = (if i < length extb then extb ! i else beyond i)"

definition block_offsets :: "nat \<Rightarrow> nat list" where
  "block_offsets start = [start, start + 0x12, start + 0x24, start + 0x36]"

subsection \<open>Detailed timings\<close>

record timing =
  pixclk :: nat
  hactive :: nat
  hblank :: nat
  vactive :: nat
  vblank :: nat
  hsyncoff :: nat
  hsyncwidth :: nat
  vsyncoff :: nat
  vsyncwidth :: nat

definition is_dtd :: "mem \<Rightarrow> nat \<Rightarrow> bool" where
  "is_dtd b i \<longleftrightarrow> b i \<noteq> 0 \<and> b (i + 1) \<noteq> 0"

definition decode_dtd :: "mem \<Rightarrow> nat \<Rightarrow> timing" where
  "decode_dtd b i =
     \<lparr>pixclk = push_bit 8 (unat (b (i + 1))) OR unat (b i),
      hactive = unat (b (i + 2)) + push_bit 4 (unat (b (i + 4) AND 0xf0)),
      hblank = unat (b (i + 3)) + push_bit 8 (unat (b (i + 4) AND 0x0f)),
      vactive = unat (b (i + 5)) + push_bit 4 (unat (b (i + 7) AND 0xf0)),
      vblank = unat (b (i + 6)) + push_bit 8 (unat (b (i + 7) AND 0x0f)),
      hsyncoff = unat (b (i + 8)) OR push_bit 2 (unat (b (i + 11) AND 0xC0)),
      hsyncwidth = unat (b (i + 9)) OR push_bit 4 (unat (b (i + 11) AND 0x30)),
      vsyncoff = drop_bit 4 (unat (b (i + 10) AND 0xf0)) OR push_bit 2 (unat (b (i + 11) AND 0x0C)),
      vsyncwidth = unat (b (i + 10) AND 0x0f) OR push_bit 4 (unat (b (i + 11) AND 0x03))\<rparr>"

definition num :: "nat \<Rightarrow> string" where
  "num n = show_nat n @ '' ''"

definition show_timing :: "timing \<Rightarrow> string" where
  "show_timing t = fixed2 (pixclk t) @ '' ''
     @ num (hactive t) @ num (hactive t + hsyncoff t) @ num (hactive t + hsyncoff t + hsyncwidth t)
     @ num (hactive t + hblank t)
     @ num (vactive t) @ num (vactive t + vsyncoff t) @ num (vactive t + vsyncoff t + vsyncwidth t)
     @ num (vactive t + vblank t)"

text \<open>The flag byte of a timing: whether the sync polarities are known, and their text.\<close>

definition sync_known :: "byte \<Rightarrow> bool" where
  "sync_known f \<longleftrightarrow> f AND 0x80 \<noteq> 0 \<or> f AND 0x18 = 0x18"

definition sync_text :: "byte \<Rightarrow> string" where
  "sync_text f = (if f AND 0x10 \<noteq> 0 \<and> f AND 0x02 \<noteq> 0 then ''+'' else ''-'') @ ''hsync ''
     @ (if f AND 0x10 \<noteq> 0 \<and> f AND 0x04 \<noteq> 0 then ''+'' else ''-'') @ ''vsync ''
     @ (if f AND 0x80 \<noteq> 0 then ''interlace'' else [])"

definition put_mode :: "string \<Rightarrow> edid_st \<Rightarrow> edid_st" where
  "put_mode s st = st\<lparr>modearray := (modearray st)[currentmode st := s]\<rparr>"

definition next_mode :: "edid_st \<Rightarrow> edid_st" where
  "next_mode st = st\<lparr>currentmode := Suc (currentmode st)\<rparr>"

text \<open>One timing of the base block. The mode counts only when its polarities are known.\<close>

definition dtd_edid :: "mem \<Rightarrow> edid_st \<Rightarrow> nat \<Rightarrow> edid_st" where
  "dtd_edid b st i =
     (if is_dtd b i then
        let line = show_timing (decode_dtd b i); f = b (i + 17)
        in if sync_known f then next_mode (put_mode (line @ sync_text f) st) else put_mode line st
      else st)"

text \<open>One timing of the extension block, which starts at \<open>curloc\<close>. Here every mode counts.\<close>

definition dtd_extb :: "mem \<Rightarrow> nat \<Rightarrow> edid_st \<Rightarrow> nat \<Rightarrow> edid_st" where
  "dtd_extb b curloc st i =
     (if is_dtd b i then
        let st1 = (if i = curloc \<and> unat (b 3 AND 0x0F) > 0 then st\<lparr>native := int (currentmode st)\<rparr> else st);
            line = show_timing (decode_dtd b i); f = b (i + 17)
        in next_mode (put_mode (if sync_known f then line @ sync_text f else line) st1)
      else st)"

subsection \<open>The base block\<close>

definition checksum :: "byte list \<Rightarrow> byte" where
  "checksum bs = sum_list bs"

definition header_byte_ok :: "nat \<Rightarrow> byte \<Rightarrow> bool" where
  "header_byte_ok i e \<longleftrightarrow> ((i = 0 \<or> i = 7) \<and> e = 0x00) \<or> e = 0xff"

definition header_ok :: "byte list \<Rightarrow> bool" where
  "header_ok edid \<longleftrightarrow> list_all (\<lambda>i. header_byte_ok i (edid ! i)) [0..<8]"

text \<open>
  \<open>frame\<close> is the content of the stack from the variable \<open>modelname\<close> on: 13 characters and what
  follows. They are not initialised; a name without a newline is not terminated.
\<close>

definition name_block :: "byte list \<Rightarrow> string \<Rightarrow> nat \<Rightarrow> string" where
  "name_block edid frame i =
     (if edid ! i = 0x00 \<and> edid ! (i + 3) = 0xfc
      then map (\<lambda>j. if edid ! (i + 5 + j) = 0x0a then NUL else char_of_byte (edid ! (i + 5 + j))) [0..<13]
           @ drop 13 frame
      else frame)"

definition modelname :: "byte list \<Rightarrow> string \<Rightarrow> string" where
  "modelname edid frame = cstr (foldl (name_block edid) frame (block_offsets 0x36))"

definition vendor_char :: "nat \<Rightarrow> char" where
  "vendor_char n = char_of (n + 65 - 1)"

definition vendor :: "byte list \<Rightarrow> string" where
  "vendor edid =
     [vendor_char (unat (drop_bit 2 (edid ! 8) AND 0x1f)),
      vendor_char (push_bit 3 (unat (edid ! 8 AND 0x3)) OR drop_bit 5 (unat (edid ! 9 AND 0xe0))),
      vendor_char (unat (edid ! 9 AND 0x1f))]"

definition year_line :: "byte list \<Rightarrow> string" where
  "year_line edid =
     (let week = unat (edid ! 0x10); year = show_nat (unat (edid ! 0x11) + 1990)
      in if week \<le> 54 then tab @ ''# Monitor Manufactured week '' @ show_nat week @ '' of '' @ year @ nl
         else if week \<noteq> 0xff then tab @ ''# Monitor Manufactured in '' @ year @ nl
         else tab @ ''# Monitor Model Year: '' @ year @ nl)"

definition option_line :: "string \<Rightarrow> string \<Rightarrow> string" where
  "option_line name v = tab @ ''Option '' @ quoted name @ '' '' @ quoted v @ nl"

definition display_lines :: "byte list \<Rightarrow> string" where
  "display_lines edid =
     (if edid ! 0x14 AND 0x80 \<noteq> 0 then tab @ ''# Digital Display'' @ nl
      else tab @ ''# Analog Display'' @ nl
        @ (if edid ! 0x14 AND 0x02 \<noteq> 0 then option_line ''SyncOnGreen'' ''true'' else []))
     @ (if edid ! 0x15 \<noteq> 0 \<and> edid ! 0x16 \<noteq> 0
        then tab @ ''DisplaySize '' @ show_nat (unat (edid ! 0x15) * 10) @ '' ''
             @ show_nat (unat (edid ! 0x16) * 10) @ nl
        else tab @ ''# Display Physical Size not given. Normal for projectors.'' @ nl)
     @ (if edid ! 0x17 \<noteq> 0xff then tab @ ''Gamma '' @ fixed2 (unat (edid ! 0x17) + 100) @ nl else [])
     @ option_line ''DPMS'' (if edid ! 0x18 AND 0xE0 \<noteq> 0 then ''true'' else ''false'')"

definition limit :: "byte list \<Rightarrow> nat \<Rightarrow> byte \<Rightarrow> nat \<Rightarrow> string" where
  "limit edid i flag pos = show_nat (unat (edid ! (i + pos)) + (if edid ! (i + 4) AND flag \<noteq> 0 then 255 else 0))"

definition limit_lines :: "byte list \<Rightarrow> nat \<Rightarrow> string" where
  "limit_lines edid i =
     (if edid ! i = 0x00 \<and> edid ! (i + 3) = 0xfd then
        tab @ ''Horizsync '' @ limit edid i 0x04 7 @ ''-'' @ limit edid i 0x08 8 @ nl
        @ tab @ ''VertRefresh '' @ limit edid i 0x01 5 @ ''-'' @ limit edid i 0x02 6 @ nl
        @ tab @ ''# Maximum pixel clock is '' @ show_nat (unat (edid ! (i + 9)) * 10) @ ''MHz'' @ nl
      else [])"

definition std_vres :: "nat \<Rightarrow> nat \<Rightarrow> nat" where
  "std_vres hres ratio =
     (if ratio = 0 then (hres * 10) div 16
      else if ratio = 1 then (hres * 3) div 4
      else if ratio = 2 then (hres * 4) div 5
      else (hres * 9) div 16)"

definition std_line :: "byte list \<Rightarrow> nat \<Rightarrow> string" where
  "std_line edid i =
     (if edid ! i = 1 \<and> edid ! (i + 1) = 1 then []
      else let hres = (unat (edid ! i) + 31) * 8;
               vres = std_vres hres (drop_bit 6 (unat (edid ! (i + 1) AND 0xC0)));
               refresh = unat (edid ! (i + 1) AND 0x3F) + 60
           in tab @ ''#Not giving standard mode: '' @ show_nat hres @ ''x'' @ show_nat vres @ '', ''
              @ show_nat refresh @ ''Hz'' @ nl)"

definition std_offsets :: "nat list" where
  "std_offsets = [0x26, 0x28, 0x2a, 0x2c, 0x2e, 0x30, 0x32, 0x34]"

definition edid_text :: "byte list \<Rightarrow> string \<Rightarrow> string" where
  "edid_text edid frame =
     (let name = modelname edid frame in
        ''Section '' @ quoted ''Monitor'' @ nl
        @ tab @ ''Identifier '' @ quoted name @ nl @ tab @ ''ModelName '' @ quoted name @ nl
        @ tab @ ''VendorName '' @ quoted (vendor edid) @ nl
        @ year_line edid
        @ tab @ ''# EDID version '' @ show_nat (unat (edid ! 0x12)) @ ''.'' @ show_nat (unat (edid ! 0x13)) @ nl
        @ display_lines edid
        @ concat (map (limit_lines edid) (block_offsets 0x36))
        @ concat (map (std_line edid) std_offsets))"

text \<open>The text printed and the modes found; \<open>None\<close> when the header is wrong and the program ends.\<close>

definition parseedid :: "byte list \<Rightarrow> string \<Rightarrow> edid_st \<Rightarrow> (string \<times> edid_st) option" where
  "parseedid edid frame st =
     (if \<not> header_ok edid then None
      else Some (edid_text edid frame, foldl (dtd_edid (\<lambda>i. edid ! i)) st (block_offsets 0x36)))"

subsection \<open>The extension block\<close>

definition ceamodes :: "string list" where
  "ceamodes = [[],
   ''25.200 640 656 752 800 480 490 492 525 -hsync -vsync'',
   ''27.027 720 736 798 858 480 489 495 525 -hsync -vsync'',
   ''27.027 720 736 798 858 480 489 495 525 -hsync -vsync'',
   ''74.250 1280 1390 1420 1650 720 725 730 750 +hsync +vsync'',
   ''74.250 1920 2008 2052 2200 1080 1082 1087 1125 +hsync +vsync interlace'',
   ''27.027 1440 1478 1602 1716 480 484 487 525 -hsync -vsync interlace'',
   ''27.027 1440 1478 1602 1716 480 484 487 525 -hsync -vsync interlace'',
   ''27.027 1440 1478 1602 1716 240 244 247 262 -hsync -vsync'',
   ''27.027 1440 1478 1602 1716 240 244 247 262 -hsync -vsync'',
   ''54.054 2880 2956 3204 3432 480 484 487 525 -hsync -vsync interlace'',
   ''54.054 2880 2956 3204 3432 480 484 487 525 -hsync -vsync interlace'',
   ''54.054 2880 2956 3204 3432 240 244 247 262 -hsync -vsync'',
   ''54.054 2880 2956 3204 3432 240 244 247 262 -hsync -vsync'',
   ''54.054 1440 1472 1596 1716 480 489 495 525 -hsync -vsync'',
   ''54.054 1440 1472 1596 1716 480 489 495 525 -hsync -vsync'',
   ''148.500 1920 2008 2052 2200 1080 1084 1089 1125 +hsync +vsync'',
   ''27.000 720 732 796 864 576 581 586 625 -hsync -vsync'',
   ''27.000 720 732 796 864 576 581 586 625 -hsync -vsync'',
   ''74.250 1280 1720 1760 1980 720 725 730 750 +hsync +vsync'',
   ''74.250 1920 2448 2492 2640 1080 1082 1089 1125 +hsync +vsync interlace'',
   ''27.000 1440 1464 1590 1728 576 578 581 625 -hsync -vsync interlace'',
   ''27.000 1440 1464 1590 1728 576 578 581 625 -hsync -vsync interlace'',
   ''27.000 1440 1464 1590 1728 288 290 293 312 -hsync -vsync'',
   ''27.000 1440 1464 1590 1728 288 290 293 312 -hsync -vsync'',
   ''54.000 2880 2928 3180 3456 576 578 581 625 -hsync -vsync interlace'',
   ''54.000 2880 2928 3180 3456 576 578 581 625 -hsync -vsync interlace'',
   ''54.000 2880 2928 3180 3456 288 290 393 312 -hsync -vsync'',
   ''54.000 2880 2928 3180 3456 288 290 393 312 -hsync -vsync'',
   ''54.000 1440 1464 1592 1728 576 581 586 625 -hsync -vsync'',
   ''54.000 1440 1464 1592 1728 576 581 586 625 -hsync -vsync'',
   ''148.500 1920 2448 2492 2640 1080 1084 1089 1125 +hsync +vsync'',
   ''74.250 1920 2558 2602 2750 1080 1084 1089 1125 +hsync +vsync'',
   ''74.250 1920 2448 2492 2640 1080 1084 1089 1125 +hsync +vsync'',
   ''74.250 1920 2008 2052 2200 1080 1084 1089 1125 +hsync +vsync'',
   ''108.000 2880 2944 3192 3432 480 489 495 525 -hsync -vsync'',
   ''108.000 2880 2944 3192 3432 480 489 495 525 -hsync -vsync'',
   ''108.000 2880 2928 3184 3456 576 581 586 625 -hsync -vsync'',
   ''108.000 2880 2928 3184 3456 576 581 586 625 -hsync -vsync'',
   ''72.000 1920 1952 2120 2304 1080 1103 1108 1250 +hsync +vsync interlace'',
   ''148.500 1920 2448 2492 2640 1080 1082 1087 1125 +hsync +vsync interlace'',
   ''148.500 1280 1720 1760 1980 720 725 730 750 +hsync +vsync'',
   ''54.000 720 732 796 864 576 581 586 625 -hsync -vsync'',
   ''54.000 720 732 796 864 576 581 586 625 -hsync -vsync'',
   ''54.000 1440 1464 1590 1728 576 578 581 625 -hsync -vsync interlace'',
   ''54.000 1440 1464 1590 1728 576 578 581 625 -hsync -vsync interlace'',
   ''148.500 1920 2008 2052 2200 1080 1082 1087 1125 +hsync +vsync interlace'',
   ''148.500 1280 1390 1430 1650 720 725 730 750 +hsync +vsync'',
   ''54.000 720 736 798 858 480 489 495 525 -hsync -vsync'',
   ''54.000 720 736 798 858 480 489 495 525 -hsync -vsync'',
   ''54.000 1440 1478 1602 1716 480 484 487 525 -hsync -vsync interlace'',
   ''54.000 1440 1478 1602 1716 480 484 487 525 -hsync -vsync interlace'',
   ''108.00 720 732 796 864 576 581 586 625 -hsync -vsync'',
   ''108.00 720 732 796 864 576 581 586 625 -hsync -vsync'',
   ''108.00 1440 1464 1590 1728 576 578 581 625 -hsync -vsync interlace'',
   ''108.00 1440 1464 1590 1728 576 578 581 625 -hsync -vsync interlace'',
   ''108.108 720 736 798 858 480 489 495 525 -hsync -vsync'',
   ''108.108 720 736 798 858 480 489 495 525 -hsync -vsync'',
   ''108.108 1440 1478 1602 1716 480 484 587 525 -hsync -vsync interlace'',
   ''108.108 1440 1478 1602 1716 480 484 587 525 -hsync -vsync interlace'']"

text \<open>One short video descriptor: the warning printed and the mode added.\<close>

definition svd :: "mem \<Rightarrow> string \<times> edid_st \<Rightarrow> nat \<Rightarrow> string \<times> edid_st" where
  "svd b = (\<lambda>(out, st) i.
     let code = unat (b (5 + i) AND 0x7f)
     in if code > 59 then
          (out @ ''#WARNING: I may have missed a mode (CEA mode '' @ show_nat code @ '')'' @ nl
             @ (if native st = - 1 then ''#DOUBLE WARNING: It'' @ [CHR 0x27]
                  @ ''s your first mode, too, so this may actually be important.'' @ nl else []), st)
        else let st1 = (if native st = - 1 then st\<lparr>native := int (currentmode st)\<rparr> else st)
             in (out, next_mode (put_mode (ceamodes ! code) st1)))"

definition video_block :: "mem \<Rightarrow> nat \<Rightarrow> string \<times> edid_st \<Rightarrow> string \<times> edid_st" where
  "video_block b curloc os = (if curloc > 4 then foldl (svd b) os [0..<unat (b 4 AND 0x1F)] else os)"

text \<open>
  How the extension block is left: with an exit of the program, or with the text printed and the
  modes. \<open>hex_byte\<close> is the \<open>%x\<close> conversion.
\<close>

datatype ext_result = ExtDie string | ExtOk string edid_st

definition hex_digit :: "nat \<Rightarrow> char" where
  "hex_digit n = (if n < 10 then digit_char n else char_of (87 + n))"

definition hex_byte :: "nat \<Rightarrow> string" where
  "hex_byte n = (if n < 16 then [hex_digit n] else [hex_digit (n div 16), hex_digit (n mod 16)])"

definition parseextb :: "byte list \<Rightarrow> mem \<Rightarrow> edid_st \<Rightarrow> ext_result" where
  "parseextb extb beyond st =
     (let b = extmem extb beyond;
          out0 = nl @ tab @ ''#Extension block found. Parsing...'' @ nl;
          curloc = unat (extb ! 2)
      in if checksum extb \<noteq> 0x00 then ExtDie out0
         else if extb ! 0 \<noteq> 0x02 then ExtDie out0
         else if curloc = 0 then ExtOk (out0 @ ''#No data in the extension block'' @ nl) st
         else if curloc > 4 \<and> extb ! 4 AND 0xE0 \<noteq> 0x40
         then ExtDie (out0 @ ''extb[4]: 0x'' @ hex_byte (unat (extb ! 4)) @ '' (0x''
                @ hex_byte (unat (extb ! 4 AND 0xE0)) @ '')'' @ nl)
         else let os = video_block b curloc (out0, st)
              in ExtOk (fst os) (foldl (dtd_extb b curloc) (snd os) (block_offsets curloc)))"

subsection \<open>The mode lines and the program\<close>

definition mode_line :: "string list \<Rightarrow> nat \<Rightarrow> string" where
  "mode_line ms i = tab @ ''Modeline '' @ tab @ quoted (''Mode '' @ show_nat i) @ '' '' @ ms ! i @ nl"

definition footer_order :: "edid_st \<Rightarrow> nat list" where
  "footer_order st = (if native st \<noteq> - 1 then [nat (native st)] else [])
     @ filter (\<lambda>i. int i \<noteq> native st) [0..<currentmode st]"

definition dofooter :: "edid_st \<Rightarrow> string" where
  "dofooter st = concat (map (mode_line (modearray st)) (footer_order st))
     @ (if native st \<noteq> - 1 then option_line ''PreferredMode'' (''Mode '' @ show_nat (nat (native st))) else [])
     @ ''EndSection'' @ nl"

text \<open>
  The exit code and the output. \<open>r1\<close> and \<open>r2\<close> are the bytes the two reads deliver, at most 128 each.
\<close>

definition main_edid :: "byte list \<Rightarrow> byte list \<Rightarrow> string \<Rightarrow> mem \<Rightarrow> int \<times> string" where
  "main_edid r1 r2 frame beyond =
     (if length r1 \<noteq> 128 then (1, [])
      else if r1 ! 126 = 0x01 \<and> length r2 \<noteq> 128 then (1, [])
      else if r1 ! 126 > 0x01 then (1, [])
      else case parseedid r1 frame edid_init of
        None \<Rightarrow> (1, [])
      | Some (out, st) \<Rightarrow>
          if r1 ! 126 = 0x01 then
            (case parseextb r2 beyond st of
               ExtDie out' \<Rightarrow> (1, out @ out')
             | ExtOk out' st' \<Rightarrow> (0, out @ out' @ dofooter st'))
          else (0, out @ dofooter st))"

subsection \<open>Bit fields\<close>

lemma unat_and_literal: "unat (w AND numeral k :: byte) = unat w AND unat (numeral k :: byte)"
  by (simp add: unsigned_and_eq)

lemma and_field: "(n :: nat) AND push_bit k (mask m) = push_bit k (take_bit m (drop_bit k n))"
  by (rule bit_eqI) (auto simp: bit_simps)

lemma nat_field:
  "(n :: nat) AND 0xf0 = n div 16 mod 16 * 16" "(n :: nat) AND 0x0f = n mod 16"
  "(n :: nat) AND 0xC0 = n div 64 mod 4 * 64" "(n :: nat) AND 0x30 = n div 16 mod 4 * 16"
  "(n :: nat) AND 0x0C = n div 4 mod 4 * 4" "(n :: nat) AND 0x03 = n mod 4"
  using and_field [of n 4 4] and_field [of n 0 4] and_field [of n 6 2] and_field [of n 4 2]
    and_field [of n 2 2] and_field [of n 0 2]
  by (simp_all add: take_bit_eq_mod drop_bit_eq_div push_bit_eq_mult mask_eq_exp_minus_1)

lemma or_shifted: "(b :: nat) < 2 ^ k \<Longrightarrow> b OR a * 2 ^ k = a * 2 ^ k + b"
proof -
  assume "b < 2 ^ k"
  then have "\<not> bit (push_bit k a) n \<or> \<not> bit b n" for n
    by (metis bit_push_bit_iff_nat bit_take_bit_iff leD take_bit_nat_eq_self)
  then have "push_bit k a + b = push_bit k a OR b"
    by (rule disjunctive_add)
  then show ?thesis by (simp add: push_bit_eq_mult or.commute)
qed

lemma byte_less: "unat (w :: byte) < 256"
  using unsigned_less [of w] by simp

text \<open>The fields of a timing as arithmetic on its bytes.\<close>

lemma decode_dtd_arith:
  "decode_dtd b i =
     \<lparr>pixclk = unat (b (i + 1)) * 256 + unat (b i),
      hactive = unat (b (i + 4)) div 16 * 256 + unat (b (i + 2)),
      hblank = unat (b (i + 4)) mod 16 * 256 + unat (b (i + 3)),
      vactive = unat (b (i + 7)) div 16 * 256 + unat (b (i + 5)),
      vblank = unat (b (i + 7)) mod 16 * 256 + unat (b (i + 6)),
      hsyncoff = unat (b (i + 11)) div 64 * 256 + unat (b (i + 8)),
      hsyncwidth = unat (b (i + 11)) div 16 mod 4 * 256 + unat (b (i + 9)),
      vsyncoff = unat (b (i + 11)) div 4 mod 4 * 16 + unat (b (i + 10)) div 16,
      vsyncwidth = unat (b (i + 11)) mod 4 * 16 + unat (b (i + 10)) mod 16\<rparr>"
proof -
  have or8: "unat (w :: byte) OR a * 256 = a * 256 + unat w" for a w
    using or_shifted [of "unat w" 8 a] byte_less [of w] by simp
  have or4: "x < 16 \<Longrightarrow> x OR a * 16 = a * 16 + x" for a x :: nat
    using or_shifted [of x 4 a] by simp
  have hi: "unat (w :: byte) div 16 < 16" "unat w div 64 < 4" for w
    using byte_less [of w] by auto
  show ?thesis
    unfolding decode_dtd_def
    by (simp add: unat_and_literal nat_field push_bit_eq_mult drop_bit_eq_div or8 or4 hi mult.assoc
        or.commute [of "_ * 256"])
qed

subsection \<open>Decoding a timing\<close>

text \<open>
  The layout of a detailed timing as the EDID standard describes it: the values a timing can have,
  and the bytes of such a timing with flag byte \<open>f\<close>. The bytes 12 to 16 (image size and border) are
  not used by the parser.
\<close>

definition timing_ok :: "timing \<Rightarrow> bool" where
  "timing_ok t \<longleftrightarrow> pixclk t < 65536 \<and> hactive t < 4096 \<and> hblank t < 4096 \<and> vactive t < 4096 \<and> vblank t < 4096
     \<and> hsyncoff t < 1024 \<and> hsyncwidth t < 1024 \<and> vsyncoff t < 64 \<and> vsyncwidth t < 64"

definition dtd_values :: "timing \<Rightarrow> nat list" where
  "dtd_values t =
     [pixclk t mod 256, pixclk t div 256,
      hactive t mod 256, hblank t mod 256, hactive t div 256 * 16 + hblank t div 256,
      vactive t mod 256, vblank t mod 256, vactive t div 256 * 16 + vblank t div 256,
      hsyncoff t mod 256, hsyncwidth t mod 256, vsyncoff t mod 16 * 16 + vsyncwidth t mod 16,
      hsyncoff t div 256 * 64 + hsyncwidth t div 256 * 16 + vsyncoff t div 16 * 4 + vsyncwidth t div 16]"

definition dtd_bytes :: "timing \<Rightarrow> byte list \<Rightarrow> byte \<Rightarrow> byte list" where
  "dtd_bytes t unused f = map word_of_nat (dtd_values t) @ unused @ [f]"

lemma split_less: "a < m \<Longrightarrow> b < k \<Longrightarrow> a * k + b < m * (k :: nat)"
  using mult_le_mono1 [of "Suc a" m k] by simp

lemma decode_dtd_ok: "timing_ok (decode_dtd b i)"
proof -
  have lt: "unat (b k) < 256" for k by (rule byte_less)
  have q: "unat (b k) div 16 < 16" "unat (b k) div 64 < 4" for k using lt [of k] by auto
  have f8: "a < 16 \<Longrightarrow> a * 256 + unat (b k) < 4096" "a < 256 \<Longrightarrow> a * 256 + unat (b k) < 65536"
    "a < 4 \<Longrightarrow> a * 256 + unat (b k) < 1024" for a k
    using split_less [of a 16 "unat (b k)" 256] split_less [of a 256 "unat (b k)" 256]
      split_less [of a 4 "unat (b k)" 256] lt [of k] by simp_all
  have f4: "a < 4 \<Longrightarrow> c < 16 \<Longrightarrow> a * 16 + c < 64" for a c :: nat
    using split_less [of a 4 c 16] by simp
  show ?thesis
    unfolding decode_dtd_arith timing_ok_def timing.select_convs
    by (intro conjI f8 f4 lt q) simp_all
qed

lemma unat_small_byte: "n < 256 \<Longrightarrow> unat (word_of_nat n :: byte) = n"
  by (simp add: unsigned_of_nat take_bit_nat_eq_self)

lemma two_fields:
  fixes a b k :: nat
  assumes "b < k"
  shows "(a * k + b) div k = a" "(a * k + b) mod k = b"
  using assms by auto

lemma sync_fields:
  fixes a b c d :: nat
  assumes "a < 4" "b < 4" "c < 4" "d < 4"
  shows "a * 64 + b * 16 + c * 4 + d < 256" "(a * 64 + b * 16 + c * 4 + d) div 64 = a"
    "(a * 64 + b * 16 + c * 4 + d) div 16 mod 4 = b" "(a * 64 + b * 16 + c * 4 + d) div 4 mod 4 = c"
    "(a * 64 + b * 16 + c * 4 + d) mod 4 = d"
proof -
  let ?x = "a * 64 + b * 16 + c * 4 + d"
  have d4: "?x = (a * 16 + b * 4 + c) * 4 + d" by simp
  have "?x div 4 = a * 16 + b * 4 + c" and m: "?x mod 4 = d"
    unfolding d4 using two_fields [OF assms(4)] by blast+
  then have q: "?x div 4 = (a * 4 + b) * 4 + c" by simp
  have "?x div 16 = ?x div 4 div 4" by (simp add: div_mult2_eq [symmetric])
  then have q2: "?x div 16 = a * 4 + b" unfolding q using two_fields(1) [OF assms(3)] by simp
  have "?x div 64 = ?x div 16 div 4" by (simp add: div_mult2_eq [symmetric])
  then show "?x div 64 = a" unfolding q2 using two_fields(1) [OF assms(2)] by simp
  show "?x div 16 mod 4 = b" unfolding q2 by (rule two_fields(2) [OF assms(2)])
  show "?x div 4 mod 4 = c" unfolding q by (rule two_fields(2) [OF assms(3)])
  show "?x mod 4 = d" by (rule m)
  show "?x < 256" using assms by linarith
qed

lemma timing_parts:
  assumes "timing_ok t"
  shows "pixclk t div 256 < 256" "hactive t div 256 < 16" "hblank t div 256 < 16" "vactive t div 256 < 16"
    "vblank t div 256 < 16" "hsyncoff t div 256 < 4" "hsyncwidth t div 256 < 4" "vsyncoff t div 16 < 4"
    "vsyncwidth t div 16 < 4"
  using assms by (auto simp: timing_ok_def)

lemma length_dtd_values: "length (dtd_values t) = 12"
  by (simp add: dtd_values_def)

lemma dtd_values_nth:
  "dtd_values t ! 0 = pixclk t mod 256" "dtd_values t ! 1 = pixclk t div 256"
  "dtd_values t ! 2 = hactive t mod 256" "dtd_values t ! 3 = hblank t mod 256"
  "dtd_values t ! 4 = hactive t div 256 * 16 + hblank t div 256"
  "dtd_values t ! 5 = vactive t mod 256" "dtd_values t ! 6 = vblank t mod 256"
  "dtd_values t ! 7 = vactive t div 256 * 16 + vblank t div 256"
  "dtd_values t ! 8 = hsyncoff t mod 256" "dtd_values t ! 9 = hsyncwidth t mod 256"
  "dtd_values t ! 10 = vsyncoff t mod 16 * 16 + vsyncwidth t mod 16"
  "dtd_values t ! 11 = hsyncoff t div 256 * 64 + hsyncwidth t div 256 * 16 + vsyncoff t div 16 * 4
     + vsyncwidth t div 16"
  by (simp_all only: dtd_values_def) simp_all

lemma dtd_values_byte: "timing_ok t \<Longrightarrow> list_all (\<lambda>n. n < 256) (dtd_values t)"
  using timing_parts [of t] sync_fields(1) split_less [of "hactive t div 256" 16 "hblank t div 256" 16]
    split_less [of "vactive t div 256" 16 "vblank t div 256" 16]
    split_less [of "vsyncoff t mod 16" 16 "vsyncwidth t mod 16" 16] by (simp add: dtd_values_def)

text \<open>
  C14: the decoder reads every detailed timing the standard can express: from the bytes of a timing,
  at any position of a block, it gets back exactly that timing and its flag byte.
\<close>

theorem decode_dtd_roundtrip:
  assumes "timing_ok t" and "length unused = 5"
    and "\<forall>k < 18. b (i + k) = dtd_bytes t unused f ! k"
  shows "decode_dtd b i = t \<and> b (i + 17) = f"
proof -
  note parts = timing_parts [OF assms(1)]
  have at: "unat (b (i + k)) = dtd_values t ! k" if "k < 12" for k
  proof -
    have "b (i + k) = word_of_nat (dtd_values t ! k)"
      using assms(3) that by (simp add: dtd_bytes_def nth_append length_dtd_values)
    moreover have "dtd_values t ! k < 256"
      using dtd_values_byte [OF assms(1)] that by (simp add: list_all_length length_dtd_values)
    ultimately show ?thesis by (simp add: unat_small_byte)
  qed
  have v: "unat (b i) = pixclk t mod 256" "unat (b (i + 1)) = pixclk t div 256"
    "unat (b (i + 2)) = hactive t mod 256" "unat (b (i + 3)) = hblank t mod 256"
    "unat (b (i + 4)) = hactive t div 256 * 16 + hblank t div 256"
    "unat (b (i + 5)) = vactive t mod 256" "unat (b (i + 6)) = vblank t mod 256"
    "unat (b (i + 7)) = vactive t div 256 * 16 + vblank t div 256"
    "unat (b (i + 8)) = hsyncoff t mod 256" "unat (b (i + 9)) = hsyncwidth t mod 256"
    "unat (b (i + 10)) = vsyncoff t mod 16 * 16 + vsyncwidth t mod 16"
    "unat (b (i + 11)) = hsyncoff t div 256 * 64 + hsyncwidth t div 256 * 16 + vsyncoff t div 16 * 4 + vsyncwidth t div 16"
    using at [of 0] by (simp add: dtd_values_nth) (subst at; simp only: dtd_values_nth; simp)+
  have low: "vsyncwidth t mod 16 < 16" by simp
  have "decode_dtd b i = t"
    unfolding decode_dtd_arith v
    by (rule timing.equality)
       (simp_all only: timing.select_convs two_fields [OF parts(3)] two_fields [OF parts(5)]
         two_fields [OF low] sync_fields [OF parts(6-9)] div_mult_mod_eq, simp)
  moreover have "b (i + 17) = f" using assms(2,3) by (simp add: dtd_bytes_def nth_append length_dtd_values)
  ultimately show ?thesis ..
qed

definition example_timing :: timing where
  "example_timing = \<lparr>pixclk = 14850, hactive = 1920, hblank = 280, vactive = 1080, vblank = 45,
     hsyncoff = 88, hsyncwidth = 44, vsyncoff = 4, vsyncwidth = 5\<rparr>"

theorem decode_dtd_roundtrip_witness:
  "decode_dtd (\<lambda>k. dtd_bytes example_timing (replicate 5 0) 0x1e ! (k - 54)) 54 = example_timing"
  using decode_dtd_roundtrip [of example_timing "replicate 5 0"
      "\<lambda>k. dtd_bytes example_timing (replicate 5 0) 0x1e ! (k - 54)" 54 "0x1e"]
  by (simp add: timing_ok_def example_timing_def)

subsection \<open>Buffers\<close>

lemma length_num: "n < 10000 \<Longrightarrow> length (num n) \<le> 5"
  using length_show_nat_bound [of n 4] by (simp add: num_def)

lemma length_fixed2: "n < 100000 \<Longrightarrow> length (fixed2 n) \<le> 6"
  using length_show_nat_bound [of "n div 100" 3] by (simp add: fixed2_def)

lemma length_show_timing: "timing_ok t \<Longrightarrow> length (show_timing t) \<le> 47"
  using length_fixed2 [of "pixclk t"] length_num [of "hactive t"] length_num [of "hactive t + hsyncoff t"]
    length_num [of "hactive t + hsyncoff t + hsyncwidth t"] length_num [of "hactive t + hblank t"]
    length_num [of "vactive t"] length_num [of "vactive t + vsyncoff t"]
    length_num [of "vactive t + vsyncoff t + vsyncwidth t"] length_num [of "vactive t + vblank t"]
  by (simp add: timing_ok_def show_timing_def)

lemma length_sync_text: "length (sync_text f) \<le> 23"
  by (simp add: sync_text_def)

lemma length_ceamodes: "length ceamodes = 60"
  by (simp add: ceamodes_def)

lemma ceamodes_short: "list_all (\<lambda>s. length s < 128) ceamodes"
  by (simp add: ceamodes_def)

text \<open>
  What the parser keeps: at most \<open>k\<close> modes, 128 buffers, every text short enough for its buffer
  with the terminating NUL, and a native mode that is one of the modes.
\<close>

definition edid_ok :: "nat \<Rightarrow> edid_st \<Rightarrow> bool" where
  "edid_ok k st \<longleftrightarrow> currentmode st \<le> k \<and> length (modearray st) = 128 \<and>
     (\<forall>s \<in> set (modearray st). length s < 128) \<and>
     (native st = - 1 \<or> 0 \<le> native st \<and> native st < int (currentmode st))"

lemma edid_ok_init: "edid_ok 0 edid_init"
  by (simp add: edid_ok_def edid_init_def)

lemma edid_ok_put: "edid_ok k st \<Longrightarrow> length s < 128 \<Longrightarrow> edid_ok k (put_mode s st)"
  by (auto simp: edid_ok_def put_mode_def dest: set_update_subset_insert [THEN subsetD])

lemma edid_ok_next: "edid_ok k st \<Longrightarrow> edid_ok (Suc k) (next_mode st)"
  by (auto simp: edid_ok_def next_mode_def)

lemma edid_ok_mono: "edid_ok k st \<Longrightarrow> k \<le> k' \<Longrightarrow> edid_ok k' st"
  by (auto simp: edid_ok_def)

lemma edid_ok_native:
  "edid_ok k (put_mode s st) \<Longrightarrow> edid_ok (Suc k) (next_mode (put_mode s (st\<lparr>native := int (currentmode st)\<rparr>)))"
  by (auto simp: edid_ok_def next_mode_def put_mode_def)

lemma mode_texts_short:
  "length (show_timing (decode_dtd b i)) < 128" "length (show_timing (decode_dtd b i) @ sync_text f) < 128"
  using length_show_timing [OF decode_dtd_ok, of b i] length_sync_text [of f] by simp_all

lemma dtd_edid_ok: "edid_ok k st \<Longrightarrow> edid_ok (Suc k) (dtd_edid b st i)"
  using edid_ok_put [OF _ mode_texts_short(1)] edid_ok_put [OF _ mode_texts_short(2)] edid_ok_next
    edid_ok_mono [of k _ "Suc k"]
  by (simp add: dtd_edid_def Let_def)

lemma dtd_extb_ok: "edid_ok k st \<Longrightarrow> edid_ok (Suc k) (dtd_extb b curloc st i)"
  using edid_ok_put [OF _ mode_texts_short(1)] edid_ok_put [OF _ mode_texts_short(2)] edid_ok_next
    edid_ok_native edid_ok_mono [of k st "Suc k"]
  by (simp add: dtd_extb_def Let_def)

lemma svd_ok: "edid_ok k (snd os) \<Longrightarrow> edid_ok (Suc k) (snd (svd b os i))"
proof -
  assume ok: "edid_ok k (snd os)"
  have "length (ceamodes ! c) < 128" if "c \<le> 59" for c
    using ceamodes_short that by (simp add: list_all_length length_ceamodes)
  then have short: "length (ceamodes ! c) < 128" if "\<not> c > 59" for c using that by simp
  obtain out st where os: "os = (out, st)" by (cases os)
  with ok have ok': "edid_ok k st" by simp
  show ?thesis
    using edid_ok_next [OF edid_ok_put [OF ok' short]] edid_ok_native [OF edid_ok_put [OF ok' short]]
      edid_ok_mono [OF ok', of "Suc k"]
    by (simp add: svd_def Let_def os)
qed

lemma fold_count:
  assumes step: "\<And>k s x. P k s \<Longrightarrow> P (Suc k) (f s x)"
  shows "P k s \<Longrightarrow> P (k + length xs) (foldl f s xs)"
proof (induction xs arbitrary: k s)
  case (Cons x xs)
  from Cons.IH [OF step [OF Cons.prems, of x]] show ?case by simp
qed simp

lemma length_block_offsets: "length (block_offsets i) = 4"
  by (simp add: block_offsets_def)

lemma parseedid_ok:
  assumes "parseedid edid frame edid_init = Some (out, st)"
  shows "edid_ok 4 st"
  using fold_count [of edid_ok "dtd_edid (\<lambda>i. edid ! i)" 0 edid_init "block_offsets 0x36", OF dtd_edid_ok edid_ok_init]
    assms by (auto simp: parseedid_def length_block_offsets split: if_splits)

lemma svds_less: "unat (w AND 0x1F :: byte) \<le> 31"
  using and_field [of "unat w" 0 5] by (simp add: unat_and_literal take_bit_eq_mod mask_eq_exp_minus_1)

lemma video_block_ok:
  assumes "edid_ok k (snd os)"
  shows "edid_ok (k + 31) (snd (video_block b curloc os))"
  using fold_count [of "\<lambda>k os. edid_ok k (snd os)" "svd b" k os "[0..<unat (b 4 AND 0x1F)]", OF svd_ok assms]
    assms edid_ok_mono svds_less [of "b 4"]
  by (simp add: video_block_def)

lemma parseextb_modes:
  assumes "parseextb extb beyond st = ExtOk out st'"
  obtains "st' = st"
  | out0 where "st' = foldl (dtd_extb (extmem extb beyond) (unat (extb ! 2)))
      (snd (video_block (extmem extb beyond) (unat (extb ! 2)) (out0, st))) (block_offsets (unat (extb ! 2)))"
  using assms by (auto simp: parseextb_def Let_def split: if_splits)

lemma parseextb_ok:
  assumes "edid_ok k st" and "parseextb extb beyond st = ExtOk out st'"
  shows "edid_ok (k + 35) st'"
  using assms(2)
proof (cases rule: parseextb_modes)
  case 1
  then show ?thesis using assms(1) edid_ok_mono by simp
next
  case (2 out0)
  let ?b = "extmem extb beyond" let ?c = "unat (extb ! 2)"
  have "edid_ok (k + 31) (snd (video_block ?b ?c (out0, st)))" by (rule video_block_ok) (simp add: assms(1))
  from fold_count [of edid_ok "dtd_extb ?b ?c", OF dtd_extb_ok this, of "block_offsets ?c"]
  show ?thesis using 2 by (simp add: length_block_offsets add.commute)
qed

text \<open>
  C13: whatever the bytes of the EDID and of the extension block are, the parser keeps to its mode
  array: there are at most 4 modes after the base block and at most 39 in the end, so that the 128
  entries of the array are never exceeded, every mode text with its terminating NUL fits the 128
  characters of its entry, and the native mode is one of the modes found. (This is about the writes
  to \<open>modearray\<close>; the reads from the extension block are treated below.)
\<close>

theorem edid_buffers_fit:
  assumes "parseedid edid frame edid_init = Some (out, st)"
  shows "edid_ok 4 st \<and> (parseextb extb beyond st = ExtOk out' st' \<longrightarrow> edid_ok 39 st')"
  using parseedid_ok [OF assms] parseextb_ok [of 4 st extb beyond out' st'] by simp

definition example_edid :: "byte list" where
  "example_edid = [0, 0xff, 0xff, 0xff, 0xff, 0xff, 0xff, 0] @ replicate 46 1
     @ dtd_bytes example_timing (replicate 5 0) 0x1e @ replicate 56 0"

lemma example_edid_parses:
  "parseedid example_edid [] edid_init
     = Some (edid_text example_edid [], foldl (dtd_edid (\<lambda>i. example_edid ! i)) edid_init (block_offsets 0x36))"
  by (simp add: parseedid_def header_ok_def header_byte_ok_def example_edid_def upt_rec)

theorem edid_buffers_fit_witness:
  "edid_ok 4 (foldl (dtd_edid (\<lambda>i. example_edid ! i)) edid_init (block_offsets 0x36))"
  using edid_buffers_fit [OF example_edid_parses] by blast

subsection \<open>The mode lines\<close>

lemma footer_order_spec:
  assumes "edid_ok k st"
  shows "distinct (footer_order st)" "set (footer_order st) = {..<currentmode st}"
    "native st \<noteq> - 1 \<Longrightarrow> hd (footer_order st) = nat (native st)"
  using assms by (auto simp: edid_ok_def footer_order_def)

text \<open>
  The modes a monitor announces, as texts in their order: the complete timings of the base block
  with known polarities; the standard modes that the extension block names, and its timings.
\<close>

definition timing_text :: "mem \<Rightarrow> nat \<Rightarrow> string" where
  "timing_text b i = show_timing (decode_dtd b i) @ (if sync_known (b (i + 17)) then sync_text (b (i + 17)) else [])"

definition base_modes :: "mem \<Rightarrow> string list" where
  "base_modes b = map (timing_text b) (filter (\<lambda>i. is_dtd b i \<and> sync_known (b (i + 17))) (block_offsets 0x36))"

definition cea_codes :: "mem \<Rightarrow> nat list" where
  "cea_codes b = (if unat (b 2) > 4
     then filter (\<lambda>c. c \<le> 59) (map (\<lambda>i. unat (b (5 + i) AND 0x7f)) [0..<unat (b 4 AND 0x1F)]) else [])"

definition ext_modes :: "mem \<Rightarrow> string list" where
  "ext_modes b = (if unat (b 2) = 0 then []
     else map (\<lambda>c. ceamodes ! c) (cea_codes b)
          @ map (timing_text b) (filter (is_dtd b) (block_offsets (unat (b 2)))))"

text \<open>
  The native mode, \<open>n\<close> being the number of modes of the base block: the first timing of the extension
  block if the block declares native timings, else its first standard mode, else none.
\<close>

definition ext_native :: "mem \<Rightarrow> nat \<Rightarrow> int" where
  "ext_native b n =
     (if unat (b 2) = 0 then - 1
      else if is_dtd b (unat (b 2)) \<and> unat (b 3 AND 0x0F) > 0 then int (n + length (cea_codes b))
      else if cea_codes b \<noteq> [] then int n else - 1)"

definition holds_modes :: "string list \<Rightarrow> edid_st \<Rightarrow> bool" where
  "holds_modes ms st \<longleftrightarrow> currentmode st = length ms \<and> take (length ms) (modearray st) = ms \<and> length (modearray st) = 128"

lemma holds_modes_init: "holds_modes [] edid_init"
  by (simp add: holds_modes_def edid_init_def)

lemma holds_modes_put: "holds_modes ms st \<Longrightarrow> holds_modes ms (put_mode s st)"
  by (simp add: holds_modes_def put_mode_def)

lemma holds_modes_native [simp]: "holds_modes ms (st\<lparr>native := n\<rparr>) = holds_modes ms st"
  by (simp add: holds_modes_def)

lemma holds_modes_next:
  "holds_modes ms st \<Longrightarrow> length ms < 128 \<Longrightarrow> holds_modes (ms @ [s]) (next_mode (put_mode s st))"
  by (simp add: holds_modes_def next_mode_def put_mode_def take_Suc_conv_app_nth)

lemma mode_fields [simp]:
  "native (put_mode s st) = native st" "native (next_mode st) = native st"
  "currentmode (put_mode s st) = currentmode st"
  by (simp_all add: put_mode_def next_mode_def)

lemma dtd_edid_holds:
  assumes "holds_modes ms st" and "length ms < 128"
  shows "holds_modes (ms @ (if is_dtd b i \<and> sync_known (b (i + 17)) then [timing_text b i] else [])) (dtd_edid b st i)
    \<and> native (dtd_edid b st i) = native st"
  using assms holds_modes_put holds_modes_next
  by (auto simp: dtd_edid_def timing_text_def Let_def)

lemma dtd_edid_fold:
  "holds_modes ms st \<Longrightarrow> length ms + length is \<le> 128 \<Longrightarrow>
     holds_modes (ms @ map (timing_text b) (filter (\<lambda>i. is_dtd b i \<and> sync_known (b (i + 17))) is)) (foldl (dtd_edid b) st is)
     \<and> native (foldl (dtd_edid b) st is) = native st"
proof (induction "is" arbitrary: ms st)
  case (Cons i "is")
  from dtd_edid_holds [OF Cons.prems(1), of b i] Cons.prems(2)
  show ?case
    using Cons.IH [of ms "dtd_edid b st i"] Cons.IH [of "ms @ [timing_text b i]" "dtd_edid b st i"] by auto
qed simp

lemma dtd_extb_holds:
  assumes "holds_modes ms st" and "length ms < 128"
  shows "holds_modes (ms @ (if is_dtd b i then [timing_text b i] else [])) (dtd_extb b c st i)
    \<and> native (dtd_extb b c st i) =
        (if is_dtd b i \<and> i = c \<and> unat (b 3 AND 0x0F) > 0 then int (length ms) else native st)"
proof -
  have "holds_modes (ms @ [s]) (next_mode (put_mode s (st\<lparr>native := n\<rparr>)))" for s n
    by (rule holds_modes_next) (simp_all add: assms)
  moreover have "currentmode st = length ms" using assms(1) by (simp add: holds_modes_def)
  ultimately show ?thesis
    using assms holds_modes_next by (auto simp: dtd_extb_def timing_text_def Let_def)
qed

lemma dtd_extb_fold:
  "holds_modes ms st \<Longrightarrow> length ms + length is \<le> 128 \<Longrightarrow> c \<notin> set is \<Longrightarrow>
     holds_modes (ms @ map (timing_text b) (filter (is_dtd b) is)) (foldl (dtd_extb b c) st is)
     \<and> native (foldl (dtd_extb b c) st is) = native st"
proof (induction "is" arbitrary: ms st)
  case (Cons i "is")
  from dtd_extb_holds [OF Cons.prems(1), of b i c] Cons.prems(2,3)
  show ?case
    using Cons.IH [of ms "dtd_extb b c st i"] Cons.IH [of "ms @ [timing_text b i]" "dtd_extb b c st i"] by auto
qed simp

lemma svd_holds:
  assumes "holds_modes ms (snd os)" and "length ms < 128"
  shows "let code = unat (b (5 + i) AND 0x7f) in
    holds_modes (ms @ (if code \<le> 59 then [ceamodes ! code] else [])) (snd (svd b os i)) \<and>
    native (snd (svd b os i)) = (if code \<le> 59 \<and> native (snd os) = - 1 then int (length ms) else native (snd os))"
proof -
  obtain out st where os: "os = (out, st)" by (cases os)
  have "holds_modes (ms @ [s]) (next_mode (put_mode s (st\<lparr>native := n\<rparr>)))" for s n
    by (rule holds_modes_next) (use assms os in simp_all)
  moreover have "currentmode st = length ms" using assms(1) os by (simp add: holds_modes_def)
  ultimately show ?thesis
    using assms holds_modes_next by (auto simp: svd_def Let_def os)
qed

lemma svd_fold:
  "holds_modes ms (snd os) \<Longrightarrow> length ms + length is \<le> 128 \<Longrightarrow>
     (let cs = filter (\<lambda>c. c \<le> 59) (map (\<lambda>i. unat (b (5 + i) AND 0x7f)) is)
      in holds_modes (ms @ map (\<lambda>c. ceamodes ! c) cs) (snd (foldl (svd b) os is)) \<and>
         native (snd (foldl (svd b) os is)) =
           (if cs \<noteq> [] \<and> native (snd os) = - 1 then int (length ms) else native (snd os)))"
proof (induction "is" arbitrary: ms os)
  case (Cons i "is")
  from svd_holds [OF Cons.prems(1), of b i] Cons.prems(2)
  show ?case
    using Cons.IH [of ms "svd b os i"] Cons.IH [of "ms @ [ceamodes ! unat (b (5 + i) AND 0x7f)]" "svd b os i"]
    by (auto simp: Let_def)
qed simp

lemma video_block_holds:
  assumes "holds_modes ms (snd os)" and "length ms + 31 \<le> 128"
  shows "holds_modes (ms @ map (\<lambda>c. ceamodes ! c) (cea_codes b)) (snd (video_block b (unat (b 2)) os)) \<and>
    native (snd (video_block b (unat (b 2)) os)) =
      (if cea_codes b \<noteq> [] \<and> native (snd os) = - 1 then int (length ms) else native (snd os))"
  using svd_fold [OF assms(1), of "[0..<unat (b 4 AND 0x1F)]" b] assms svds_less [of "b 4"]
  by (auto simp: video_block_def cea_codes_def Let_def)

lemma length_cea_codes: "length (cea_codes b) \<le> 31"
proof -
  have "length (cea_codes b) \<le> unat (b 4 AND 0x1F)"
    by (simp add: cea_codes_def) (metis (no_types, lifting) diff_zero length_filter_le length_upt)
  with svds_less [of "b 4"] show ?thesis by linarith
qed

lemma parseedid_holds:
  assumes "parseedid edid frame edid_init = Some (out, st)"
  shows "out = edid_text edid frame" and "holds_modes (base_modes (\<lambda>i. edid ! i)) st" and "native st = - 1"
  using assms dtd_edid_fold [OF holds_modes_init, of "block_offsets 0x36" "\<lambda>i. edid ! i"]
  by (auto simp: parseedid_def base_modes_def length_block_offsets edid_init_def split: if_splits)

lemma parseextb_holds:
  assumes "parseextb extb beyond st = ExtOk out st'" and "length extb = 128"
    and "holds_modes ms st" and "native st = - 1" and "length ms \<le> 4"
  shows "holds_modes (ms @ ext_modes (extmem extb beyond)) st' \<and> native st' = ext_native (extmem extb beyond) (length ms)"
proof -
  let ?b = "extmem extb beyond"
  have b2: "?b 2 = extb ! 2" using assms(2) by (simp add: extmem_def)
  let ?c = "unat (?b 2)"
  show ?thesis
  proof (cases "?c = 0")
    case True
    with assms show ?thesis by (simp add: parseextb_def ext_modes_def ext_native_def b2 Let_def split: if_splits)
  next
    case False
    with assms(1) obtain out0 where st': "st' = foldl (dtd_extb ?b ?c) (snd (video_block ?b ?c (out0, st))) (block_offsets ?c)"
      by (auto simp: parseextb_def b2 Let_def split: if_splits)
    let ?s = "snd (video_block ?b ?c (out0, st))" let ?ms = "ms @ map (\<lambda>c. ceamodes ! c) (cea_codes ?b)"
    have s: "holds_modes ?ms ?s" "native ?s = (if cea_codes ?b \<noteq> [] then int (length ms) else - 1)"
      using video_block_holds [of ms "(out0, st)" ?b] assms(3-5) by simp_all
    have len: "length ?ms \<le> 35" using length_cea_codes [of ?b] assms(5) by simp
    define s1 where "s1 = dtd_extb ?b ?c ?s ?c"
    have s1: "holds_modes (?ms @ (if is_dtd ?b ?c then [timing_text ?b ?c] else [])) s1"
      "native s1 = (if is_dtd ?b ?c \<and> unat (?b 3 AND 0x0F) > 0 then int (length ?ms) else native ?s)"
      using dtd_extb_holds [OF s(1), of ?b ?c ?c] len by (simp_all add: s1_def)
    have "st' = foldl (dtd_extb ?b ?c) s1 [?c + 0x12, ?c + 0x24, ?c + 0x36]"
      by (simp add: st' s1_def block_offsets_def)
    with dtd_extb_fold [OF s1(1), of "[?c + 0x12, ?c + 0x24, ?c + 0x36]" ?c ?b] len s(2) s1(2) False
    show ?thesis by (auto simp: ext_modes_def ext_native_def block_offsets_def split: if_splits)
  qed
qed

text \<open>The mode lines of a list of modes, the native one (if any) first, and the rest of the section.\<close>

definition modes_section :: "string list \<Rightarrow> int \<Rightarrow> string" where
  "modes_section ms nat0 =
     concat (map (mode_line ms) ((if nat0 \<noteq> - 1 then [nat nat0] else []) @ filter (\<lambda>i. int i \<noteq> nat0) [0..<length ms]))
     @ (if nat0 \<noteq> - 1 then option_line ''PreferredMode'' (''Mode '' @ show_nat (nat nat0)) else [])
     @ ''EndSection'' @ nl"

lemma dofooter_section:
  assumes "holds_modes ms st" and "native st = - 1 \<or> 0 \<le> native st \<and> native st < int (length ms)"
  shows "dofooter st = modes_section ms (native st)"
proof -
  have line: "mode_line (modearray st) i = mode_line ms i" if "i < length ms" for i
    using assms(1) that nth_take [of i "length ms" "modearray st"] by (simp add: holds_modes_def mode_line_def)
  have "concat (map (mode_line (modearray st)) (footer_order st)) = concat (map (mode_line ms) (footer_order st))"
    by (intro arg_cong [where f = concat] map_cong refl)
       (use assms line in \<open>auto simp: footer_order_def holds_modes_def\<close>)
  with assms(1) show ?thesis by (simp add: dofooter_def modes_section_def footer_order_def holds_modes_def)
qed

text \<open>
  C28: a successful run prints the monitor section of the base block, then (only if there is an
  extension block) what \<open>parseextb\<close> prints about it, then one mode line for every mode the
  monitor announces, numbered and in the order of the modes, except that the native one comes first, then
  the option that makes it the preferred one, and the end of the section. The modes are the base block's
  timings with known polarities, then the standard modes named by the extension block, then its
  timings, each with the text its bytes decode to.
\<close>

theorem main_edid_modes:
  assumes "main_edid r1 r2 frame beyond = (0, out)"
  shows "if r1 ! 126 = 1
    then \<exists>head st st'. parseedid r1 frame edid_init = Some (edid_text r1 frame, st) \<and>
      parseextb r2 beyond st = ExtOk head st' \<and>
      out = edid_text r1 frame @ head
        @ modes_section (base_modes (\<lambda>i. r1 ! i) @ ext_modes (extmem r2 beyond))
            (ext_native (extmem r2 beyond) (length (base_modes (\<lambda>i. r1 ! i))))
    else out = edid_text r1 frame @ modes_section (base_modes (\<lambda>i. r1 ! i)) (- 1)"
proof -
  let ?bm = "base_modes (\<lambda>i. r1 ! i)"
  from assms obtain out1 st1 where p: "parseedid r1 frame edid_init = Some (out1, st1)"
    by (auto simp: main_edid_def split: if_splits option.splits)
  note base = parseedid_holds [OF p]
  have few: "length ?bm \<le> 4"
    using length_filter_le [of _ "block_offsets 0x36"] by (simp add: base_modes_def length_block_offsets)
  show ?thesis
  proof (cases "r1 ! 126 = 1")
    case False
    with assms p base dofooter_section [of ?bm st1] show ?thesis
      by (auto simp: main_edid_def split: if_splits)
  next
    case True
    with assms p obtain out2 st2 where e: "parseextb r2 beyond st1 = ExtOk out2 st2" "out = out1 @ out2 @ dofooter st2"
        "length r2 = 128"
      by (auto simp: main_edid_def split: if_splits ext_result.splits)
    note ext = parseextb_holds [OF e(1,3) base(2,3) few]
    have "edid_ok 39 st2" using parseextb_ok [OF parseedid_ok [OF p] e(1)] by simp
    then have "native st2 = - 1 \<or> 0 \<le> native st2 \<and> native st2 < int (length (?bm @ ext_modes (extmem r2 beyond)))"
      using ext by (auto simp: edid_ok_def holds_modes_def)
    with dofooter_section [of "?bm @ ext_modes (extmem r2 beyond)" st2] ext e(1,2) base(1) p True
    show ?thesis by (intro iffD2 [OF if_P]) auto
  qed
qed

lemma example_edid_modes:
  "base_modes (\<lambda>i. example_edid ! i) = [show_timing example_timing @ ''+hsync +vsync '']"
proof -
  have len: "length (dtd_bytes example_timing (replicate 5 0) 0x1e) = 18"
    by (simp add: dtd_bytes_def length_dtd_values)
  have at: "example_edid ! (54 + j) = dtd_bytes example_timing (replicate 5 0) 0x1e ! j" if "j < 18" for j
    using that len by (simp add: example_edid_def nth_append)
  have "decode_dtd (\<lambda>i. example_edid ! i) 54 = example_timing" and f: "example_edid ! 71 = 0x1e"
    using decode_dtd_roundtrip [of example_timing "replicate 5 0" "\<lambda>i. example_edid ! i" 54 "0x1e"] at
    by (simp_all add: timing_ok_def example_timing_def)
  moreover have "is_dtd (\<lambda>i. example_edid ! i) 54"
    using at [of 0] at [of 1] by (simp add: is_dtd_def dtd_bytes_def dtd_values_def example_timing_def)
  moreover have "example_edid ! 72 = 0" "example_edid ! 90 = 0" "example_edid ! 108 = 0"
    by (simp_all add: example_edid_def nth_append dtd_bytes_def dtd_values_def)
  ultimately show ?thesis
    by (simp add: base_modes_def block_offsets_def timing_text_def sync_known_def sync_text_def is_dtd_def)
qed

theorem main_edid_modes_witness:
  "\<exists>out. main_edid example_edid [] [] (\<lambda>_. 0) = (0, out) \<and>
     out = edid_text example_edid [] @ modes_section [show_timing example_timing @ ''+hsync +vsync ''] (- 1)"
proof -
  have at: "length example_edid = 128" "example_edid ! 126 = 0"
    by (simp_all add: example_edid_def dtd_bytes_def dtd_values_def nth_append)
  then obtain out where run: "main_edid example_edid [] [] (\<lambda>_. 0) = (0, out)"
    by (simp add: main_edid_def example_edid_parses)
  with main_edid_modes [OF run] at show ?thesis by (simp add: example_edid_modes)
qed

subsection \<open>Reading behind the extension block\<close>

lemma extmem_same: "i < 128 \<Longrightarrow> length extb = 128 \<Longrightarrow> extmem extb b1 i = extmem extb b2 i"
  by (simp add: extmem_def)

lemma dtd_extb_same:
  assumes "length extb = 128" and "i \<le> 110"
  shows "dtd_extb (extmem extb b1) c st i = dtd_extb (extmem extb b2) c st i"
  using assms by (simp add: dtd_extb_def is_dtd_def decode_dtd_def extmem_same [of _ extb b1 b2])

lemma svd_same:
  assumes "length extb = 128" and "i \<le> 31"
  shows "svd (extmem extb b1) os i = svd (extmem extb b2) os i"
  using assms by (cases os) (simp add: svd_def extmem_same [of _ extb b1 b2])

lemma video_block_same:
  assumes "length extb = 128"
  shows "video_block (extmem extb b1) c os = video_block (extmem extb b2) c os"
proof -
  have "extmem extb b1 4 = extmem extb b2 4" using assms by (simp add: extmem_same)
  moreover have "foldl (svd (extmem extb b1)) os [0..<n] = foldl (svd (extmem extb b2)) os [0..<n]"
    if "n \<le> 31" for n
    by (rule foldl_cong) (use that svd_same [OF assms] in auto)
  ultimately show ?thesis using svds_less by (simp add: video_block_def)
qed

text \<open>
  If the detailed timings of the extension block start at position 56 or before, the result does
  not depend on the memory behind the block: the parser reads the block only.
\<close>

theorem parseextb_inside:
  assumes "length extb = 128" and "unat (extb ! 2) \<le> 56"
  shows "parseextb extb b1 st = parseextb extb b2 st"
proof -
  let ?c = "unat (extb ! 2)"
  have "foldl (dtd_extb (extmem extb b1) ?c) s (block_offsets ?c)
      = foldl (dtd_extb (extmem extb b2) ?c) s (block_offsets ?c)" for s
    by (rule foldl_cong) (use assms dtd_extb_same in \<open>auto simp: block_offsets_def\<close>)
  then show ?thesis
    using video_block_same [OF assms(1), of b1 ?c _ b2] by (simp add: parseextb_def Let_def)
qed

theorem parseextb_inside_witness:
  "parseextb (2 # 0 # 4 # replicate 124 0 @ [250]) (\<lambda>_. 0) edid_init
     = parseextb (2 # 0 # 4 # replicate 124 0 @ [250]) (\<lambda>_. 1) edid_init"
  by (rule parseextb_inside) simp_all

text \<open>
  C37: when the timings of an accepted extension block start behind position 56, the parser reads behind
  the block: unless the block itself marks the fourth timing as unused (one of its first two bytes
  lies in the block and is zero), the modes it finds depend on the byte at \<open>curloc + 71\<close>, which lies
  outside of the 128 bytes.
\<close>

theorem parseextb_reads_behind:
  assumes "length extb = 128" and "checksum extb = 0" and "extb ! 0 = 2" and "56 < unat (extb ! 2)"
    and "extb ! 4 AND 0xE0 = 0x40" and "is_dtd (extmem extb (\<lambda>_. 1)) (unat (extb ! 2) + 54)"
    and "parseedid edid frame edid_init = Some (out, st)"
  shows "128 \<le> unat (extb ! 2) + 71 \<and>
    parseextb extb (\<lambda>_. 1) st \<noteq> parseextb extb ((\<lambda>_. 1)(unat (extb ! 2) + 71 := 0x80)) st"
proof -
  let ?c = "unat (extb ! 2)" let ?m = "\<lambda>_ :: nat. 1 :: byte" let ?m' = "?m(?c + 71 := 0x80)"
  let ?b = "extmem extb ?m" let ?b' = "extmem extb ?m'"
  have c: "128 \<le> ?c + 71" using assms(4) by simp
  have eq: "?b' j = ?b j" if "j \<noteq> ?c + 71" for j using that by (simp add: extmem_def)
  have flag: "?b' (?c + 71) = 0x80" "?b (?c + 71) = 1" using c assms(1) by (simp_all add: extmem_def)
  note base = parseedid_holds [OF assms(7)]
  have few: "length (base_modes (\<lambda>i. edid ! i)) \<le> 4"
    using length_filter_le [of _ "block_offsets 0x36"] by (simp add: base_modes_def length_block_offsets)
  have run: "\<exists>o1 s1. parseextb extb x st = ExtOk o1 s1" for x
    using assms(2-5) by (auto simp: parseextb_def Let_def)
  have last: "ext_modes x \<noteq> [] \<and> last (ext_modes x) = timing_text x (?c + 54)"
    if "x = ?b \<or> x = ?b'" for x
  proof -
    have "?b' (?c + 54) = ?b (?c + 54)" "?b' (?c + 54 + 1) = ?b (?c + 54 + 1)" "?b 2 = extb ! 2" "?b' 2 = extb ! 2"
      using c assms(1) by (simp_all add: eq) (simp_all add: extmem_def)
    then have "x 2 = extb ! 2" "is_dtd x (?c + 54)"
      using that assms(6) unfolding is_dtd_def by metis+
    then show ?thesis using assms(4) by (simp add: ext_modes_def block_offsets_def)
  qed
  have "decode_dtd ?b' (?c + 54) = decode_dtd ?b (?c + 54)" by (simp add: decode_dtd_def eq)
  moreover have "sync_known 0x80" "\<not> sync_known 1" "sync_text 0x80 \<noteq> []"
    by (simp_all add: sync_known_def sync_text_def)
  ultimately have "timing_text ?b' (?c + 54) \<noteq> timing_text ?b (?c + 54)"
    using flag by (simp add: timing_text_def add.assoc)
  then have "ext_modes ?b' \<noteq> ext_modes ?b" using last [of ?b] last [of ?b'] by metis
  moreover have "holds_modes ms1 s \<Longrightarrow> holds_modes ms2 s \<Longrightarrow> ms1 = ms2" for ms1 ms2 s
    by (metis holds_modes_def)
  ultimately have "parseextb extb ?m st \<noteq> parseextb extb ?m' st"
    using parseextb_holds [OF _ assms(1) base(2,3) few] run [of ?m] by (metis same_append_eq)
  with c show ?thesis by blast
qed

definition late_block :: "byte list" where
  "late_block = [2, 0, 127, 0, 64] @ replicate 122 0 @ [63]"

theorem parseextb_reads_behind_witness:
  "\<exists>out st. parseedid example_edid [] edid_init = Some (out, st) \<and>
     parseextb late_block (\<lambda>_. 1) st \<noteq> parseextb late_block ((\<lambda>_. 1)(198 := 0x80)) st"
proof -
  have at: "late_block ! 2 = 127" "late_block ! 4 = 64" "late_block ! 0 = 2"
    "length late_block = 128" "checksum late_block = 0"
    by (simp_all add: late_block_def checksum_def nth_append sum_list_replicate)
  moreover have "is_dtd (extmem late_block (\<lambda>_. 1)) (unat (late_block ! 2) + 54)"
    using at by (simp add: is_dtd_def extmem_def)
  ultimately show ?thesis
    using parseextb_reads_behind [OF _ _ _ _ _ _ example_edid_parses, of late_block] example_edid_parses by auto
qed

end
