(* ===== verification/FsPanel.thy ===== *)
theory FsPanel
  imports Prelude "HOL-Library.Signed_Division"
begin

section \<open>The panel (fspanel.c, fspanel.h)\<close>

text \<open>
  The panel shows one button per window of the current desktop, two arrows that switch the desktop
  and a clock. Its state is the task bar with its list of tasks; it reacts to X events.

  The linked list of tasks is a HOL list. The answers of the X server are a record \<open>xenv\<close> that
  comes with each event; the requests the panel sends are a list of \<open>xop\<close> in the order of the calls.
  All drawing goes to the window of the panel, so drawing requests do not repeat it. An atom is
  its name. A property is what \<open>XGetWindowProperty\<close> leaves in memory: the number of items and the
  words found from the returned address on, one \<open>long\<close> of 64 bits per item of format 32. Freeing
  memory of the client (\<open>free\<close>, \<open>XFree\<close>) is left out.
\<close>

type_synonym window = u64
type_synonym pixmap = u64
type_synonym atom = string

definition XNone :: u64 where
  "XNone = 0"

subsection \<open>Requests and answers\<close>

datatype xop =
    SetForeground u64
  | DrawLine int int int int
  | FillRectangle int int int int
  | DrawString int int string
  | DrawPoint int int
  | SetClipMask pixmap
  | SetClipOrigin int int
  | CopyToPanel pixmap int int
  | CopyPixel bool pixmap pixmap u32 u32 nat nat
  | CreatePixmap pixmap
  | CreateGC pixmap
  | FreeGC pixmap
  | FreePixmap pixmap
  | SelectInput window
  | MapWindow window
  | IconifyWindow window
  | RaiseWindow window
  | SetInputFocus window
  | MoveWindow window int int
  | SendDesktop atom int
  | CreateWindow int int int int
  | SetClassHint window string
  | ChangeProperty window atom atom "u64 list"
  | ChangeAtom window atom atom
  | ChangeStruct window atom atom nat u64
  | Sync

record xprop =
  items :: nat
  word_at :: "nat \<Rightarrow> u64"

record xenv =
  get_prop_data :: "window \<Rightarrow> atom \<Rightarrow> atom \<Rightarrow> xprop option"
  get_text :: "window \<Rightarrow> atom \<Rightarrow> atom \<Rightarrow> string option"
  geometry :: "pixmap \<Rightarrow> u32 \<times> u32 \<times> u32"
  new_icon :: "window \<Rightarrow> pixmap"
  new_mask :: "window \<Rightarrow> pixmap"
  input_focus :: window
  text_width :: "string \<Rightarrow> int"
  ctime :: string

text \<open>The global variables that are set once at the start.\<close>

record panel_cfg =
  root_win :: window
  wm_use_ewmh :: bool
  always_on_top :: bool
  generic_icon :: pixmap
  generic_mask :: pixmap
  scr_depth :: u32
  scr_width :: int
  scr_height :: int
  text_y :: int
  palette :: "u64 list"

definition MAX_TASK_WIDTH :: int where
  "MAX_TASK_WIDTH = 145"

definition ICONWIDTH :: nat where
  "ICONWIDTH = 16"

definition ICONHEIGHT :: nat where
  "ICONHEIGHT = 16"

definition WINHEIGHT :: int where
  "WINHEIGHT = 24"

definition TEXTPAD :: int where
  "TEXTPAD = 6"

definition left_arrow_x :: int where
  "left_arrow_x = 25"

definition right_arrow_x :: int where
  "right_arrow_x = 50"

definition time_width :: int where
  "time_width = 35"

record task =
  tk_win :: window
  tk_icon :: pixmap
  tk_mask :: pixmap
  tk_name :: "string option"
  pos_x :: int
  tk_width :: int
  focused :: bool
  iconified :: bool
  icon_copied :: bool

record taskbar =
  tb_win :: window
  task_list :: "task list"
  num_tasks :: int
  my_desktop :: int
  tb_hidden :: bool
  at_top :: bool

subsection \<open>Properties of windows\<close>

text \<open>The conversion of a \<open>long\<close> to an \<open>int\<close>.\<close>

definition to_int :: "u64 \<Rightarrow> int" where
  "to_int w = sint (ucast w :: 32 word)"

definition cardinal :: "xenv \<Rightarrow> window \<Rightarrow> atom \<Rightarrow> u64 option" where
  "cardinal e win prop = map_option (\<lambda>d. word_at d 0) (get_prop_data e win prop ''CARDINAL'')"

definition is_visible_on_desktop :: "panel_cfg \<Rightarrow> xenv \<Rightarrow> window \<Rightarrow> int \<Rightarrow> bool" where
  "is_visible_on_desktop g e win desk =
     (let client_desk = (case cardinal e win (if wm_use_ewmh g then ''_NET_WM_DESKTOP'' else ''_WIN_WORKSPACE'') of
                           None \<Rightarrow> - 1 | Some d \<Rightarrow> to_int d)
      in client_desk = - 1 \<or> client_desk = desk)"

definition get_current_desktop :: "panel_cfg \<Rightarrow> xenv \<Rightarrow> int" where
  "get_current_desktop g e =
     (case cardinal e (root_win g) (if wm_use_ewmh g then ''_NET_CURRENT_DESKTOP'' else ''_WIN_WORKSPACE'') of
        None \<Rightarrow> 0 | Some d \<Rightarrow> to_int d)"

definition is_hidden :: "xenv \<Rightarrow> window \<Rightarrow> bool" where
  "is_hidden e win = (case cardinal e win ''_WIN_HINTS'' of None \<Rightarrow> False | Some d \<Rightarrow> d AND 4 \<noteq> 0)"

definition is_iconified :: "xenv \<Rightarrow> window \<Rightarrow> bool" where
  "is_iconified e win =
     (case get_prop_data e win ''WM_STATE'' ''WM_STATE'' of None \<Rightarrow> False | Some d \<Rightarrow> word_at d 0 = 3)"

definition get_window_name :: "xenv \<Rightarrow> window \<Rightarrow> string option" where
  "get_window_name e win =
     (case get_text e win ''_NET_WM_NAME'' ''UTF8_STRING'' of
        Some s \<Rightarrow> Some s
      | None \<Rightarrow> get_text e win ''WM_NAME'' ''STRING'')"

subsection \<open>Icons\<close>

definition set_foreground :: "panel_cfg \<Rightarrow> nat \<Rightarrow> xop list" where
  "set_foreground g index = [SetForeground (palette g ! index)]"

text \<open>The position in the source icon for one pixel of the small icon, in unsigned arithmetic.\<close>

definition scaled :: "nat \<Rightarrow> u32 \<Rightarrow> nat \<Rightarrow> u32" where
  "scaled x w n = (of_nat x * w) div of_nat n"

text \<open>
  One pixel of the icon and of the mask. The first argument of \<open>CopyPixel\<close> tells whether a single
  plane is copied.
\<close>

definition scale_pixel ::
  "bool \<Rightarrow> pixmap \<Rightarrow> pixmap \<Rightarrow> (pixmap \<times> pixmap) option \<Rightarrow> u32 \<Rightarrow> u32 \<Rightarrow> nat \<Rightarrow> nat \<Rightarrow> xop list" where
  "scale_pixel plane icon pix masks w h y x =
     (let yy = scaled y h ICONHEIGHT; xx = scaled x w ICONWIDTH
      in CopyPixel plane icon pix xx yy x y #
         (case masks of None \<Rightarrow> [] | Some (msk, mk) \<Rightarrow> [CopyPixel False msk mk xx yy x y]))"

definition scale_icon :: "panel_cfg \<Rightarrow> xenv \<Rightarrow> task \<Rightarrow> task \<times> xop list" where
  "scale_icon g e tk =
     (case geometry e (tk_icon tk) of (w, h, d) \<Rightarrow>
        let pix = new_icon e (tk_win tk); mk = new_mask e (tk_win tk);
            masked = (tk_mask tk \<noteq> XNone);
            masks = (if masked then Some (tk_mask tk, mk) else None)
        in (tk\<lparr>tk_icon := pix, tk_mask := (if masked then mk else tk_mask tk)\<rparr>,
            [CreatePixmap pix] @ (if masked then [CreatePixmap mk, CreateGC mk] else [])
            @ set_foreground g 3
            @ concat (map (\<lambda>y. concat (map (scale_pixel (d \<noteq> scr_depth g) (tk_icon tk) pix masks w h y)
                                        (rev [0..<ICONWIDTH]))) (rev [0..<ICONHEIGHT]))
            @ (if masked then [FreeGC mk] else [])))"

text \<open>
  The hints are read through \<open>XWMHints\<close>, the structure of the C library: \<open>flags\<close> is its first word,
  \<open>icon_pixmap\<close> its third and \<open>icon_mask\<close> its sixth word on a 64-bit machine. (The property itself
  holds these values in its fourth and eighth item.) \<open>IconPixmapHint\<close> is bit 2, \<open>IconMaskHint\<close> bit 5.
\<close>

definition hint_flags :: "xprop \<Rightarrow> u64" where
  "hint_flags d = word_at d 0"

definition hint_icon_pixmap :: "xprop \<Rightarrow> pixmap" where
  "hint_icon_pixmap d = word_at d 2"

definition hint_icon_mask :: "xprop \<Rightarrow> pixmap" where
  "hint_icon_mask d = word_at d 5"

definition hint_icon :: "panel_cfg \<Rightarrow> xenv \<Rightarrow> task \<Rightarrow> task \<times> xop list" where
  "hint_icon g e tk =
     (case get_prop_data e (tk_win tk) ''WM_HINTS'' ''WM_HINTS'' of
        None \<Rightarrow> (tk, [])
      | Some hin \<Rightarrow>
          if hint_flags hin AND 4 \<noteq> 0 then
            scale_icon g e (tk\<lparr>tk_mask := (if hint_flags hin AND 32 \<noteq> 0 then hint_icon_mask hin else tk_mask tk),
                               tk_icon := hint_icon_pixmap hin, icon_copied := True\<rparr>)
          else (tk, []))"

definition get_task_hinticon :: "panel_cfg \<Rightarrow> xenv \<Rightarrow> task \<Rightarrow> task \<times> xop list" where
  "get_task_hinticon g e tk =
     (case hint_icon g e (tk\<lparr>tk_icon := XNone, tk_mask := XNone\<rparr>) of (tk1, ops) \<Rightarrow>
        (if tk_icon tk1 = XNone then tk1\<lparr>tk_icon := generic_icon g, tk_mask := generic_mask g\<rparr> else tk1, ops))"

definition get_task_kdeicon :: "xenv \<Rightarrow> task \<Rightarrow> task" where
  "get_task_kdeicon e tk =
     (case get_prop_data e (tk_win tk) ''KWM_WIN_ICON'' ''KWM_WIN_ICON'' of
        None \<Rightarrow> tk
      | Some d \<Rightarrow> tk\<lparr>tk_icon := word_at d 0, tk_mask := word_at d 1\<rparr>)"

subsection \<open>The task list\<close>

definition new_task :: "xenv \<Rightarrow> window \<Rightarrow> bool \<Rightarrow> task" where
  "new_task e win focus = \<lparr>tk_win = win, tk_icon = 0, tk_mask = 0, tk_name = get_window_name e win,
     pos_x = 0, tk_width = 0, focused = focus, iconified = is_iconified e win, icon_copied = False\<rparr>"

definition add_task :: "panel_cfg \<Rightarrow> xenv \<Rightarrow> taskbar \<Rightarrow> window \<Rightarrow> bool \<Rightarrow> taskbar \<times> xop list" where
  "add_task g e tb win focus =
     (if \<not> is_visible_on_desktop g e win (my_desktop tb) \<or> is_hidden e win then (tb, [])
      else let tk = get_task_kdeicon e (new_task e win focus);
               (tk', ops) = (if tk_icon tk = XNone then get_task_hinticon g e tk else (tk, []))
           in (tb\<lparr>num_tasks := num_tasks tb + 1, task_list := task_list tb @ [tk']\<rparr>, ops @ [SelectInput win]))"

fun find_task :: "task list \<Rightarrow> window \<Rightarrow> task option" where
  "find_task [] win = None"
| "find_task (tk # tks) win = (if tk_win tk = win then Some tk else find_task tks win)"

definition free_icon :: "task \<Rightarrow> xop list" where
  "free_icon tk =
     (if icon_copied tk then FreePixmap (tk_icon tk) # (if tk_mask tk \<noteq> XNone then [FreePixmap (tk_mask tk)] else [])
      else [])"

fun unlink :: "task list \<Rightarrow> window \<Rightarrow> (task \<times> task list) option" where
  "unlink [] win = None"
| "unlink (tk # tks) win =
     (if tk_win tk = win then Some (tk, tks)
      else map_option (\<lambda>(t, rest). (t, tk # rest)) (unlink tks win))"

definition del_task :: "taskbar \<Rightarrow> window \<Rightarrow> taskbar \<times> xop list" where
  "del_task tb win =
     (case unlink (task_list tb) win of
        None \<Rightarrow> (tb, [])
      | Some (tk, rest) \<Rightarrow> (tb\<lparr>num_tasks := num_tasks tb - 1, task_list := rest\<rparr>, free_icon tk))"

text \<open>
  The loop over the list that refreshes the focus flag and removes a window: one turn for the task
  of window \<open>w\<close>. The code fetches the next task before it removes one, so the loop runs over the
  tasks there were at its start.
\<close>

definition sweep_task :: "bool \<Rightarrow> window list \<Rightarrow> window \<Rightarrow> taskbar \<times> xop list \<Rightarrow> window \<Rightarrow> taskbar \<times> xop list" where
  "sweep_task new_desk wins focus_win = (\<lambda>(tb, ops) w.
     let tb1 = tb\<lparr>task_list := map (\<lambda>tk. if tk_win tk = w then tk\<lparr>focused := (focus_win = w)\<rparr> else tk) (task_list tb)\<rparr>
     in if \<not> new_desk \<and> w \<in> set wins then (tb1, ops)
        else case del_task tb1 w of (tb2, ops') \<Rightarrow> (tb2, ops @ ops'))"

definition add_new :: "panel_cfg \<Rightarrow> xenv \<Rightarrow> window \<Rightarrow> taskbar \<times> xop list \<Rightarrow> window \<Rightarrow> taskbar \<times> xop list" where
  "add_new g e focus_win = (\<lambda>(tb, ops) w.
     if find_task (task_list tb) w = None
     then case add_task g e tb w (w = focus_win) of (tb', ops') \<Rightarrow> (tb', ops @ ops')
     else (tb, ops))"

definition client_list :: "panel_cfg \<Rightarrow> xenv \<Rightarrow> window list option" where
  "client_list g e =
     map_option (\<lambda>d. map (word_at d) [0..<items d])
       (case get_prop_data e (root_win g) ''_NET_CLIENT_LIST'' ''WINDOW'' of
          Some d \<Rightarrow> Some d
        | None \<Rightarrow> get_prop_data e (root_win g) ''_WIN_CLIENT_LIST'' ''CARDINAL'')"

definition taskbar_read_clientlist :: "panel_cfg \<Rightarrow> xenv \<Rightarrow> taskbar \<Rightarrow> taskbar \<times> xop list" where
  "taskbar_read_clientlist g e tb =
     (let desk = get_current_desktop g e;
          new_desk = (desk \<noteq> my_desktop tb);
          tb1 = tb\<lparr>my_desktop := desk\<rparr>
      in case client_list g e of
           None \<Rightarrow> (tb1, [])
         | Some wins \<Rightarrow>
             foldl (add_new g e (input_focus e))
               (foldl (sweep_task new_desk wins (input_focus e)) (tb1, []) (map tk_win (task_list tb1)))
               wins)"

subsection \<open>Drawing\<close>

definition gui_draw_vline :: "panel_cfg \<Rightarrow> int \<Rightarrow> xop list" where
  "gui_draw_vline g x = set_foreground g 4 @ [DrawLine x 0 x WINHEIGHT]
     @ set_foreground g 3 @ [DrawLine (x + 1) 0 (x + 1) WINHEIGHT]"

text \<open>How many characters of the name fit: the loop takes one off at a time.\<close>

fun fit_len :: "xenv \<Rightarrow> string \<Rightarrow> int \<Rightarrow> nat \<Rightarrow> nat" where
  "fit_len e name room 0 = 0"
| "fit_len e name room (Suc n) =
     (if text_width e (take (Suc n) name) \<ge> room then fit_len e name room n else Suc n)"

definition draw_button :: "panel_cfg \<Rightarrow> int \<Rightarrow> int \<Rightarrow> bool \<Rightarrow> int \<times> xop list" where
  "draw_button g x0 taskw foc =
     (if foc then
        (let x = x0 + 1
         in (x, [FillRectangle (x + 3) 3 (taskw - 5) (WINHEIGHT - 6)]
              @ set_foreground g 3
              @ [DrawLine (x + 2) (WINHEIGHT - 2) (x + taskw - 2) (WINHEIGHT - 2),
                 DrawLine (x + taskw - 2) 2 (x + taskw - 2) (WINHEIGHT - 2)]
              @ set_foreground g 0 @ [DrawLine (x + 1) 2 (x + 1) (WINHEIGHT - 2)]
              @ set_foreground g 4
              @ [DrawLine (x + 2) 2 (x + taskw - 2) 2, DrawLine (x + 2) 2 (x + 2) (WINHEIGHT - 3)]))
      else (x0, set_foreground g 0 @ [FillRectangle (x0 + 2) 1 (taskw - 1) (WINHEIGHT - 2)]))"

text \<open>The program is built with the generic icon (\<open>HAVE_XPM\<close>) or without; \<open>xpm\<close> tells which.\<close>

definition gui_draw_task :: "bool \<Rightarrow> panel_cfg \<Rightarrow> xenv \<Rightarrow> task \<Rightarrow> xop list" where
  "gui_draw_task xpm g e tk =
     (case tk_name tk of
        None \<Rightarrow> []
      | Some name \<Rightarrow>
          let x0 = pos_x tk; taskw = tk_width tk;
              (x, button) = draw_button g x0 taskw (focused tk);
              text_x = x + TEXTPAD + TEXTPAD + int ICONWIDTH;
              len = fit_len e name (taskw - (text_x - x) - 2) (length name);
              shown = take len name;
              icon_y = (WINHEIGHT - int ICONHEIGHT) div 2
          in gui_draw_vline g x0
             @ [DrawLine (x0 + 1) 0 (x0 + taskw) 0]
             @ set_foreground g 1 @ [DrawLine (x0 + 1) (WINHEIGHT - 1) (x0 + taskw) (WINHEIGHT - 1)]
             @ button
             @ (if iconified tk
                then set_foreground g 3 @ [DrawString text_x (text_y g + 1) shown] @ set_foreground g 4
                else set_foreground g 5)
             @ [DrawString text_x (text_y g) shown]
             @ (if \<not> xpm \<and> tk_icon tk = XNone then []
                else [SetClipMask (tk_mask tk), SetClipOrigin (x + TEXTPAD) icon_y,
                      CopyToPanel (tk_icon tk) (x + TEXTPAD) icon_y, SetClipMask XNone]))"

definition clock_x :: "panel_cfg \<Rightarrow> int" where
  "clock_x g = scr_width g - time_width - (TEXTPAD * 4)"

definition gui_draw_clock :: "panel_cfg \<Rightarrow> xenv \<Rightarrow> xop list" where
  "gui_draw_clock g e =
     (let old_x = clock_x g; width = scr_width g - old_x - 2; x = old_x + TEXTPAD
      in gui_draw_vline g old_x
         @ [DrawLine (x + 1) (WINHEIGHT - 2) (old_x + width - TEXTPAD) (WINHEIGHT - 2),
            DrawLine (old_x + width - TEXTPAD) 2 (old_x + width - TEXTPAD) (WINHEIGHT - 2)]
         @ set_foreground g 1 @ [FillRectangle (x + 1) 2 (width - (TEXTPAD * 2) - 1) (WINHEIGHT - 4)]
         @ set_foreground g 4
         @ [DrawLine x 2 (x + width - (TEXTPAD * 2) - 1) 2, DrawLine x 2 x (WINHEIGHT - 2)]
         @ set_foreground g 5 @ [DrawString (x + TEXTPAD - 1) (text_y g) (take 5 (drop 11 (ctime e)))])"

definition draw_dot :: "panel_cfg \<Rightarrow> int \<Rightarrow> int \<Rightarrow> xop list" where
  "draw_dot g x y = set_foreground g 4 @ [DrawPoint x y] @ set_foreground g 3 @ [DrawPoint (x + 1) (y + 1)]"

function grill_from :: "panel_cfg \<Rightarrow> int \<Rightarrow> int \<Rightarrow> xop list" where
  "grill_from g x y =
     (if y < WINHEIGHT - 4
      then draw_dot g (x + 3) (y + 3) @ draw_dot g x (y + 3) @ grill_from g x (y + 3)
      else [])"
  by pat_completeness auto

termination grill_from
  by (relation "measure (\<lambda>(g, x, y). nat (WINHEIGHT - y))") auto

definition draw_grill :: "panel_cfg \<Rightarrow> int \<Rightarrow> xop list" where
  "draw_grill g x = grill_from g x 0"

definition draw_up_triangle :: "xop list" where
  "draw_up_triangle =
     (let m = (WINHEIGHT - 4) div 2
      in [FillRectangle (left_arrow_x + 2) (m + 1) 3 3,
          DrawLine left_arrow_x (m + 3) (left_arrow_x + 3) m,
          DrawLine (left_arrow_x + 3) m (left_arrow_x + 6) (m + 3),
          DrawLine (left_arrow_x + 1) (m + 3) (left_arrow_x + 5) (m + 3)])"

definition draw_down_triangle :: "xop list" where
  "draw_down_triangle =
     (let m = (WINHEIGHT - 4) div 2
      in [DrawLine right_arrow_x m (right_arrow_x + 3) (m + 3),
          DrawLine right_arrow_x m (right_arrow_x + 4) (m + 2),
          DrawLine right_arrow_x m (right_arrow_x + 5) (m + 1),
          DrawLine right_arrow_x m (right_arrow_x + 6) m])"

text \<open>The width of a button, and whether the buttons leave room at the right.\<close>

definition task_slot :: "panel_cfg \<Rightarrow> int \<Rightarrow> int \<times> bool" where
  "task_slot g n =
     (let width = scr_width g - 80 - time_width - (TEXTPAD * 4);
          taskw = width sdiv n
      in if taskw > MAX_TASK_WIDTH then (MAX_TASK_WIDTH, True) else (taskw, False))"

text \<open>The loop over the tasks: their places, the requests, and the end of the last button.\<close>

fun place_tasks :: "bool \<Rightarrow> panel_cfg \<Rightarrow> xenv \<Rightarrow> int \<Rightarrow> int \<Rightarrow> task list \<Rightarrow> task list \<times> xop list \<times> int" where
  "place_tasks xpm g e taskw x [] = ([], [], x)"
| "place_tasks xpm g e taskw x (tk # tks) =
     (let tk' = tk\<lparr>pos_x := x, tk_width := taskw - 1\<rparr>
      in case place_tasks xpm g e taskw (x + taskw) tks of
           (tks', ops, x') \<Rightarrow> (tk' # tks', gui_draw_task xpm g e tk' @ ops, x'))"

definition clear_rest :: "panel_cfg \<Rightarrow> int \<Rightarrow> xop list" where
  "clear_rest g x = gui_draw_vline g x @ set_foreground g 0 @ [FillRectangle (x + 2) 0 (scr_width g) WINHEIGHT]"

definition gui_draw_taskbar :: "bool \<Rightarrow> panel_cfg \<Rightarrow> xenv \<Rightarrow> taskbar \<Rightarrow> taskbar \<times> xop list" where
  "gui_draw_taskbar xpm g e tb =
     (let (tb', ops) =
            (if num_tasks tb = 0 then (tb, clear_rest g 80)
             else case task_slot g (num_tasks tb) of (taskw, room_left) \<Rightarrow>
               case place_tasks xpm g e taskw 80 (task_list tb) of (tks, draw, x) \<Rightarrow>
                 (tb\<lparr>task_list := tks\<rparr>, draw @ (if room_left then clear_rest g x else [])))
      in (tb', set_foreground g 5 @ draw_up_triangle @ draw_down_triangle @ ops
            @ gui_draw_clock g e @ gui_draw_vline g 8 @ gui_draw_vline g 74
            @ draw_grill g 2 @ draw_grill g (scr_width g - 6)))"

subsection \<open>Events\<close>

definition move_taskbar :: "panel_cfg \<Rightarrow> taskbar \<Rightarrow> xop list" where
  "move_taskbar g tb =
     [MoveWindow (tb_win tb) (if tb_hidden tb then scr_width g - TEXTPAD else 0)
        (if \<not> at_top tb then scr_height g - WINHEIGHT else 0)]"

definition switch_desk :: "panel_cfg \<Rightarrow> xenv \<Rightarrow> taskbar \<Rightarrow> int \<Rightarrow> xop list" where
  "switch_desk g e tb rel =
     (let want = my_desktop tb + rel
      in if want < 0 then []
         else case cardinal e (root_win g)
                (if wm_use_ewmh g then ''_NET_NUMBER_OF_DESKTOPS'' else ''_WIN_WORKSPACE_COUNT'') of
           None \<Rightarrow> []
         | Some max_desks \<Rightarrow>
             if int (unat max_desks) \<le> want then []
             else [SendDesktop (if wm_use_ewmh g then ''_NET_CURRENT_DESKTOP'' else ''_WIN_WORKSPACE'') want])"

definition press_task :: "bool \<Rightarrow> panel_cfg \<Rightarrow> xenv \<Rightarrow> int \<Rightarrow> task \<Rightarrow> task \<times> xop list" where
  "press_task xpm g e x tk =
     (if x > pos_x tk \<and> x < pos_x tk + tk_width tk then
        (let (tk', ops) =
               (if iconified tk then (tk\<lparr>iconified := False, focused := True\<rparr>, [MapWindow (tk_win tk)])
                else if focused tk then (tk\<lparr>iconified := True, focused := False\<rparr>, [IconifyWindow (tk_win tk)])
                else (tk\<lparr>focused := True\<rparr>, [RaiseWindow (tk_win tk), SetInputFocus (tk_win tk)]))
         in (tk', ops @ [Sync] @ gui_draw_task xpm g e tk'))
      else if focused tk then
        (let tk' = tk\<lparr>focused := False\<rparr> in (tk', gui_draw_task xpm g e tk'))
      else (tk, []))"

definition each_task :: "(task \<Rightarrow> task \<times> xop list) \<Rightarrow> taskbar \<Rightarrow> taskbar \<times> xop list" where
  "each_task f tb = (tb\<lparr>task_list := map (fst \<circ> f) (task_list tb)\<rparr>, concat (map (snd \<circ> f) (task_list tb)))"

definition handle_press :: "bool \<Rightarrow> panel_cfg \<Rightarrow> xenv \<Rightarrow> taskbar \<Rightarrow> int \<Rightarrow> int \<Rightarrow> taskbar \<times> xop list" where
  "handle_press xpm g e tb x y =
     (let middle = (y > 3 \<and> y < WINHEIGHT - 3)
      in if middle \<and> x \<ge> right_arrow_x \<and> x < right_arrow_x + 9 then (tb, switch_desk g e tb 1)
         else if middle \<and> x \<ge> left_arrow_x \<and> x < left_arrow_x + 9 then (tb, switch_desk g e tb (- 1))
         else if x < 6 then
           (let tb' = (if tb_hidden tb then tb\<lparr>tb_hidden := False\<rparr> else tb\<lparr>at_top := \<not> at_top tb\<rparr>)
            in (tb', move_taskbar g tb'))
         else if x + TEXTPAD > scr_width g then
           (let tb' = tb\<lparr>tb_hidden := \<not> tb_hidden tb\<rparr> in (tb', move_taskbar g tb'))
         else each_task (press_task xpm g e x) tb)"

definition focus_in_task :: "bool \<Rightarrow> panel_cfg \<Rightarrow> xenv \<Rightarrow> window \<Rightarrow> task \<Rightarrow> task \<times> xop list" where
  "focus_in_task xpm g e win tk =
     (if focused tk then
        (if tk_win tk \<noteq> win then (let tk' = tk\<lparr>focused := False\<rparr> in (tk', gui_draw_task xpm g e tk')) else (tk, []))
      else if tk_win tk = win then (let tk' = tk\<lparr>focused := True\<rparr> in (tk', gui_draw_task xpm g e tk'))
      else (tk, []))"

definition handle_focusin :: "bool \<Rightarrow> panel_cfg \<Rightarrow> xenv \<Rightarrow> taskbar \<Rightarrow> window \<Rightarrow> taskbar \<times> xop list" where
  "handle_focusin xpm g e tb win = each_task (focus_in_task xpm g e win) tb"

text \<open>The change of the first task of window \<open>win\<close>.\<close>

fun update_task :: "task list \<Rightarrow> window \<Rightarrow> (task \<Rightarrow> task \<times> xop list) \<Rightarrow> task list \<times> xop list" where
  "update_task [] win f = ([], [])"
| "update_task (tk # tks) win f =
     (if tk_win tk = win then (case f tk of (tk', ops) \<Rightarrow> (tk' # tks, ops))
      else (case update_task tks win f of (tks', ops) \<Rightarrow> (tk # tks', ops)))"

definition property_task :: "bool \<Rightarrow> panel_cfg \<Rightarrow> xenv \<Rightarrow> atom \<Rightarrow> task \<Rightarrow> task \<times> xop list" where
  "property_task xpm g e at tk =
     (if at = ''WM_NAME'' \<or> at = ''_NET_WM_NAME'' then
        (let tk' = tk\<lparr>tk_name := get_window_name e (tk_win tk)\<rparr> in (tk', gui_draw_task xpm g e tk'))
      else if at = ''WM_STATE'' then
        (if is_iconified e (tk_win tk) \<noteq> iconified tk
         then (let tk' = tk\<lparr>iconified := \<not> iconified tk\<rparr> in (tk', gui_draw_task xpm g e tk')) else (tk, []))
      else if at = ''WM_HINTS'' then
        (if tk_icon tk = generic_icon g
         then (case get_task_hinticon g e tk of (tk', ops) \<Rightarrow> (tk', ops @ gui_draw_task xpm g e tk')) else (tk, []))
      else (tk, []))"

definition handle_propertynotify ::
  "bool \<Rightarrow> panel_cfg \<Rightarrow> xenv \<Rightarrow> taskbar \<Rightarrow> window \<Rightarrow> atom \<Rightarrow> taskbar \<times> xop list" where
  "handle_propertynotify xpm g e tb win at =
     (if win = root_win g then
        (if at \<in> (if wm_use_ewmh g then {''_NET_CLIENT_LIST'', ''_NET_CURRENT_DESKTOP''}
                  else {''_WIN_CLIENT_LIST'', ''_WIN_WORKSPACE''})
         then (case taskbar_read_clientlist g e tb of (tb1, ops1) \<Rightarrow>
                 case gui_draw_taskbar xpm g e tb1 of (tb2, ops2) \<Rightarrow> (tb2, ops1 @ ops2))
         else (tb, []))
      else case update_task (task_list tb) win (property_task xpm g e at) of
             (tks, ops) \<Rightarrow> (tb\<lparr>task_list := tks\<rparr>, ops))"

datatype xevent =
    ButtonPress nat int int
  | DestroyNotify window
  | Expose
  | PropertyNotify window atom
  | FocusIn window
  | MinuteOver
  | OtherXEvent

text \<open>
  One event of the main loop; \<open>MinuteOver\<close> is the case that \<open>select\<close> returns 0 because the minute is
  over.
\<close>

definition panel_event :: "bool \<Rightarrow> panel_cfg \<Rightarrow> xenv \<Rightarrow> xevent \<Rightarrow> taskbar \<Rightarrow> taskbar \<times> xop list" where
  "panel_event xpm g e ev tb =
     (case ev of
        ButtonPress button x y \<Rightarrow> if button = 1 then handle_press xpm g e tb x y else (tb, [])
      | DestroyNotify win \<Rightarrow>
          (case del_task tb win of (tb1, ops1) \<Rightarrow>
             case gui_draw_taskbar xpm g e tb1 of (tb2, ops2) \<Rightarrow> (tb2, ops1 @ ops2))
      | Expose \<Rightarrow> gui_draw_taskbar xpm g e tb
      | PropertyNotify win at \<Rightarrow> handle_propertynotify xpm g e tb win at
      | FocusIn win \<Rightarrow> handle_focusin xpm g e tb win
      | MinuteOver \<Rightarrow> (tb, gui_draw_clock g e)
      | OtherXEvent \<Rightarrow> (tb, []))"

text \<open>The state alone, with the answers of the server that come with each event.\<close>

definition panel_step :: "bool \<Rightarrow> panel_cfg \<Rightarrow> taskbar \<Rightarrow> xenv \<times> xevent \<Rightarrow> taskbar" where
  "panel_step xpm g tb = (\<lambda>(e, ev). fst (panel_event xpm g e ev tb))"

subsection \<open>Start\<close>

definition cols :: "u16 list" where
  "cols = [0xd75c, 0xd75c, 0xd75c, 0xbefb, 0xbaea, 0xbefb, 0xaefb, 0xaaea, 0xaefb,
     0xefbe, 0xefbe, 0xefbe, 0x8617, 0x8207, 0x8617, 0x0000, 0x0000, 0x0000]"

definition PALETTE_COUNT :: nat where
  "PALETTE_COUNT = length cols div 3"

text \<open>
  What the server answers at the start: the screen, the pixel value of a colour, the ascent of a
  font (\<open>None\<close> if it does not exist), the generic icon, and whether \<open>_NET_SUPPORTED\<close> exists.
\<close>

record start_env =
  se_display :: bool
  se_root :: window
  se_depth :: u32
  se_width :: int
  se_height :: int
  se_color :: "u16 \<Rightarrow> u16 \<Rightarrow> u16 \<Rightarrow> u64"
  se_font :: "string \<Rightarrow> int option"
  se_generic :: "pixmap \<times> pixmap"
  se_ewmh :: bool
  se_window :: window

definition alloc_palette :: "(u16 \<Rightarrow> u16 \<Rightarrow> u16 \<Rightarrow> u64) \<Rightarrow> u64 list" where
  "alloc_palette color = map (\<lambda>j. color (cols ! (3 * j)) (cols ! (3 * j + 1)) (cols ! (3 * j + 2))) [0..<PALETTE_COUNT]"

text \<open>
  The loop that loads the font tries the configured name once and then \<open>fixed\<close> again and again; it
  does not end (\<open>None\<close>) when neither exists.
\<close>

definition load_font :: "(string \<Rightarrow> int option) \<Rightarrow> int option" where
  "load_font font = (case font ''-*-lucida*-m*-r-*-*-12-*-*'' of Some a \<Rightarrow> Some a | None \<Rightarrow> font ''fixed'')"

definition gui_init :: "bool \<Rightarrow> start_env \<Rightarrow> bool \<Rightarrow> panel_cfg option" where
  "gui_init xpm se on_top =
     (case load_font (se_font se) of
        None \<Rightarrow> None
      | Some ascent \<Rightarrow> Some
          \<lparr>root_win = se_root se, wm_use_ewmh = se_ewmh se, always_on_top = on_top,
           generic_icon = (if xpm then fst (se_generic se) else 0),
           generic_mask = (if xpm then snd (se_generic se) else 0),
           scr_depth = se_depth se, scr_width = se_width se, scr_height = se_height se,
           text_y = ascent + (WINHEIGHT - ascent) sdiv 2, palette = alloc_palette (se_color se)\<rparr>)"

text \<open>
  The window of the panel. The three structures at the end are handed over with a number of items
  that is their size divided by four: \<open>ChangeStruct\<close> has that number and the first word.
\<close>

definition gui_create_taskbar :: "panel_cfg \<Rightarrow> window \<Rightarrow> taskbar \<times> xop list" where
  "gui_create_taskbar g win =
     (\<lparr>tb_win = win, task_list = [], num_tasks = 0, my_desktop = 0, tb_hidden = False, at_top = False\<rparr>,
      [CreateWindow 0 (scr_height g - WINHEIGHT) (scr_width g) WINHEIGHT, SetClassHint win ''fspanel'']
      @ (if wm_use_ewmh g then
           (if always_on_top g then [ChangeAtom win ''_NET_WM_STATE'' ''_NET_WM_STATE_ABOVE''] else [])
           @ [ChangeAtom win ''_NET_WM_WINDOW_TYPE'' ''_NET_WM_WINDOW_TYPE_DESKTOP'']
         else [ChangeProperty win ''_WIN_LAYER'' ''CARDINAL'' [10],
               ChangeProperty win ''_WIN_STATE'' ''CARDINAL'' [1 OR 256]])
      @ [ChangeProperty win ''_WIN_HINTS'' ''CARDINAL'' [1 OR 2 OR 4 OR 32],
         ChangeStruct win ''_MOTIF_WM_HINTS'' ''_MOTIF_WM_HINTS'' 10 2,
         ChangeStruct win ''WM_NORMAL_HINTS'' ''WM_SIZE_HINTS'' 20 4,
         ChangeStruct win ''WM_HINTS'' ''WM_HINTS'' 14 1,
         MapWindow win])"

text \<open>
  The program up to its main loop: \<open>None\<close> in the first component stands for the early exit without
  a display, in the second for a start that never ends.
\<close>

definition main_panel :: "bool \<Rightarrow> start_env \<Rightarrow> string list \<Rightarrow> (panel_cfg \<times> taskbar \<times> xop list) option option" where
  "main_panel xpm se argv =
     (if \<not> se_display se then None
      else Some (case gui_init xpm se (''--background'' \<notin> set (drop 1 argv)) of
        None \<Rightarrow> None
      | Some g \<Rightarrow> (case gui_create_taskbar g (se_window se) of
          (tb, ops) \<Rightarrow> Some (g, tb, [SelectInput (root_win g)] @ ops @ [Sync]))))"

subsection \<open>The task list is well-formed\<close>

text \<open>The counter is the length of the list, and no window has two buttons.\<close>

definition panel_ok :: "taskbar \<Rightarrow> bool" where
  "panel_ok tb \<longleftrightarrow> num_tasks tb = int (length (task_list tb)) \<and> distinct (map tk_win (task_list tb))"

abbreviation wins :: "taskbar \<Rightarrow> window list" where
  "wins tb \<equiv> map tk_win (task_list tb)"

lemma panel_ok_same: "panel_ok tb \<Longrightarrow> num_tasks tb' = num_tasks tb \<Longrightarrow> wins tb' = wins tb \<Longrightarrow> panel_ok tb'"
  by (metis length_map panel_ok_def)

lemma scale_icon_win: "tk_win (fst (scale_icon g e tk)) = tk_win tk"
  by (simp add: scale_icon_def Let_def split: prod.split)

lemma hinticon_win: "tk_win (fst (get_task_hinticon g e tk)) = tk_win tk"
  by (simp add: get_task_hinticon_def hint_icon_def scale_icon_def Let_def split: prod.splits option.split)

lemma kdeicon_win: "tk_win (get_task_kdeicon e tk) = tk_win tk"
  by (simp add: get_task_kdeicon_def split: option.split)

lemma add_task_effect:
  "num_tasks (fst (add_task g e tb w f))
     = num_tasks tb + (if is_visible_on_desktop g e w (my_desktop tb) \<and> \<not> is_hidden e w then 1 else 0)"
  "wins (fst (add_task g e tb w f))
     = wins tb @ (if is_visible_on_desktop g e w (my_desktop tb) \<and> \<not> is_hidden e w then [w] else [])"
  "my_desktop (fst (add_task g e tb w f)) = my_desktop tb"
  using hinticon_win [of g e "get_task_kdeicon e (new_task e w f)"]
  by (auto simp: add_task_def Let_def kdeicon_win new_task_def split: prod.split)

lemma find_task_None: "find_task tks w = None \<longleftrightarrow> w \<notin> tk_win ` set tks"
  by (induction tks) auto

lemma unlink_None: "unlink tks w = None \<longleftrightarrow> w \<notin> tk_win ` set tks"
  by (induction tks) auto

lemma unlink_Some:
  "unlink tks w = Some (t, rest) \<Longrightarrow> tk_win t = w \<and> length tks = Suc (length rest) \<and> map tk_win rest = remove1 w (map tk_win tks)"
  by (induction tks arbitrary: rest) (auto split: if_splits)

lemma del_task_effect:
  "wins (fst (del_task tb w)) = remove1 w (wins tb)"
  "num_tasks (fst (del_task tb w)) = num_tasks tb - (if w \<in> set (wins tb) then 1 else 0)"
  "my_desktop (fst (del_task tb w)) = my_desktop tb"
  using unlink_None [of "task_list tb" w] unlink_Some [of "task_list tb" w]
  by (auto simp: del_task_def remove1_idem split: option.split)

lemma panel_ok_del: "panel_ok tb \<Longrightarrow> panel_ok (fst (del_task tb w))"
  using unlink_Some [of "task_list tb" w]
  by (auto simp: panel_ok_def del_task_def split: option.split)

lemma panel_ok_add: "panel_ok tb \<Longrightarrow> w \<notin> set (wins tb) \<Longrightarrow> panel_ok (fst (add_task g e tb w f))"
proof -
  assume ok: "panel_ok tb" "w \<notin> set (wins tb)"
  have "length (task_list (fst (add_task g e tb w f)))
      = length (wins tb @ (if is_visible_on_desktop g e w (my_desktop tb) \<and> \<not> is_hidden e w then [w] else []))"
    using add_task_effect(2) [of g e tb w f] by (metis length_map)
  then show ?thesis using ok by (auto simp: panel_ok_def add_task_effect)
qed

text \<open>One turn of each of the two loops of \<open>taskbar_read_clientlist\<close>.\<close>

lemma sweep_task_effect:
  "wins (fst (sweep_task nd cl f (tb, ops) w)) = (if \<not> nd \<and> w \<in> set cl then wins tb else remove1 w (wins tb))"
  "my_desktop (fst (sweep_task nd cl f (tb, ops) w)) = my_desktop tb"
  "panel_ok tb \<Longrightarrow> panel_ok (fst (sweep_task nd cl f (tb, ops) w))"
proof -
  let ?tb = "tb\<lparr>task_list := map (\<lambda>tk. if tk_win tk = w then tk\<lparr>focused := (f = w)\<rparr> else tk) (task_list tb)\<rparr>"
  have same: "wins ?tb = wins tb" by simp
  have del: "fst (sweep_task nd cl f (tb, ops) w) = (if \<not> nd \<and> w \<in> set cl then ?tb else fst (del_task ?tb w))"
    by (simp add: sweep_task_def Let_def split: prod.split)
  show "wins (fst (sweep_task nd cl f (tb, ops) w)) = (if \<not> nd \<and> w \<in> set cl then wins tb else remove1 w (wins tb))"
    unfolding del by (cases "\<not> nd \<and> w \<in> set cl") (simp_all only: del_task_effect(1) same if_True if_False simp_thms)
  show "my_desktop (fst (sweep_task nd cl f (tb, ops) w)) = my_desktop tb"
    unfolding del by (simp add: del_task_effect)
  show "panel_ok (fst (sweep_task nd cl f (tb, ops) w))" if "panel_ok tb"
    unfolding del using panel_ok_same [OF that, of ?tb] same panel_ok_del [of ?tb w] by simp
qed

lemma add_new_effect:
  "wins (fst (add_new g e f (tb, ops) w)) = wins tb @ (if w \<notin> set (wins tb) \<and>
     is_visible_on_desktop g e w (my_desktop tb) \<and> \<not> is_hidden e w then [w] else [])"
  "my_desktop (fst (add_new g e f (tb, ops) w)) = my_desktop tb"
  "panel_ok tb \<Longrightarrow> panel_ok (fst (add_new g e f (tb, ops) w))"
proof -
  have new: "fst (add_new g e f (tb, ops) w)
      = (if w \<in> set (wins tb) then tb else fst (add_task g e tb w (w = f)))"
    by (auto simp: add_new_def find_task_None split: prod.split)
  show "wins (fst (add_new g e f (tb, ops) w)) = wins tb @ (if w \<notin> set (wins tb) \<and>
     is_visible_on_desktop g e w (my_desktop tb) \<and> \<not> is_hidden e w then [w] else [])"
    unfolding new by (simp add: add_task_effect)
  show "my_desktop (fst (add_new g e f (tb, ops) w)) = my_desktop tb"
    unfolding new by (simp add: add_task_effect)
  show "panel_ok (fst (add_new g e f (tb, ops) w))" if "panel_ok tb"
    unfolding new using that panel_ok_add by simp
qed

lemma foldl_sweep:
  "distinct ws \<Longrightarrow> wins (fst (foldl (sweep_task nd cl f) (tb, ops) ws))
     = filter (\<lambda>w. w \<notin> set ws \<or> \<not> nd \<and> w \<in> set cl) (wins tb)
   \<and> my_desktop (fst (foldl (sweep_task nd cl f) (tb, ops) ws)) = my_desktop tb
   \<and> panel_ok (fst (foldl (sweep_task nd cl f) (tb, ops) ws))"
  if "panel_ok tb" for tb ops ws
  using that
proof (induction ws arbitrary: tb ops)
  case (Cons w ws)
  obtain tb1 ops1 where s: "sweep_task nd cl f (tb, ops) w = (tb1, ops1)" by fastforce
  note eff = sweep_task_effect [where ?nd = nd and ?cl = cl and ?f = f and ?tb = tb and ?ops = ops and ?w = w, unfolded s fst_conv]
  have IH: "wins (fst (foldl (sweep_task nd cl f) (tb1, ops1) ws))
      = filter (\<lambda>w. w \<notin> set ws \<or> \<not> nd \<and> w \<in> set cl) (wins tb1)
    \<and> my_desktop (fst (foldl (sweep_task nd cl f) (tb1, ops1) ws)) = my_desktop tb1
    \<and> panel_ok (fst (foldl (sweep_task nd cl f) (tb1, ops1) ws))"
    by (rule Cons.IH) (use Cons.prems eff(3) in simp_all)
  have d: "distinct (wins tb)" using Cons.prems by (simp add: panel_ok_def)
  have "filter (\<lambda>w. w \<notin> set ws \<or> \<not> nd \<and> w \<in> set cl) (wins tb1)
      = filter (\<lambda>v. v \<notin> set (w # ws) \<or> \<not> nd \<and> v \<in> set cl) (wins tb)"
    unfolding eff(1) using Cons.prems(1) d
    by (auto simp: distinct_remove1_removeAll removeAll_filter_not_eq intro: filter_cong)
  with IH eff(2) s show ?case by simp
qed simp

text \<open>
  The windows that get a new button, in the order of the client list: those that have none yet, are
  on the current desktop and do not ask to be left out, each once.
\<close>

definition showable :: "panel_cfg \<Rightarrow> xenv \<Rightarrow> window \<Rightarrow> bool" where
  "showable g e w \<longleftrightarrow> is_visible_on_desktop g e w (get_current_desktop g e) \<and> \<not> is_hidden e w"

fun new_windows :: "(window \<Rightarrow> bool) \<Rightarrow> window list \<Rightarrow> window list \<Rightarrow> window list" where
  "new_windows show have [] = []"
| "new_windows show have (w # ws) =
     (if w \<notin> set have \<and> show w then w # new_windows show (have @ [w]) ws else new_windows show have ws)"

lemma foldl_add_new:
  "panel_ok tb \<Longrightarrow> my_desktop tb = get_current_desktop g e \<Longrightarrow>
   wins (fst (foldl (add_new g e f) (tb, ops) ws)) = wins tb @ new_windows (showable g e) (wins tb) ws
   \<and> my_desktop (fst (foldl (add_new g e f) (tb, ops) ws)) = get_current_desktop g e
   \<and> panel_ok (fst (foldl (add_new g e f) (tb, ops) ws))"
proof (induction ws arbitrary: tb ops)
  case (Cons w ws)
  obtain tb1 ops1 where s: "add_new g e f (tb, ops) w = (tb1, ops1)" by fastforce
  note eff = add_new_effect [where ?g = g and ?e = e and ?f = f and ?tb = tb and ?ops = ops and ?w = w, unfolded s fst_conv]
  have IH: "wins (fst (foldl (add_new g e f) (tb1, ops1) ws)) = wins tb1 @ new_windows (showable g e) (wins tb1) ws
    \<and> my_desktop (fst (foldl (add_new g e f) (tb1, ops1) ws)) = get_current_desktop g e
    \<and> panel_ok (fst (foldl (add_new g e f) (tb1, ops1) ws))"
    by (rule Cons.IH) (use Cons.prems eff(2,3) in simp_all)
  have "wins tb1 = wins tb @ (if w \<notin> set (wins tb) \<and> showable g e w then [w] else [])"
    using eff(1) Cons.prems(2) by (simp add: showable_def)
  with IH s show ?case by (cases "w \<notin> set (wins tb) \<and> showable g e w") auto
qed simp

lemma set_new_windows: "set (new_windows show have ws) = {w \<in> set ws. show w} - set have"
  by (induction ws arbitrary: "have") auto

lemma read_clientlist_Some:
  assumes "panel_ok tb" and "client_list g e = Some cl"
  shows "wins (fst (taskbar_read_clientlist g e tb)) =
      (let kept = (if get_current_desktop g e = my_desktop tb then filter (\<lambda>w. w \<in> set cl) (wins tb) else [])
       in kept @ new_windows (showable g e) kept cl)
    \<and> my_desktop (fst (taskbar_read_clientlist g e tb)) = get_current_desktop g e
    \<and> panel_ok (fst (taskbar_read_clientlist g e tb))"
proof -
  let ?nd = "get_current_desktop g e \<noteq> my_desktop tb" let ?f = "input_focus e"
  define tb1 where "tb1 = tb\<lparr>my_desktop := get_current_desktop g e\<rparr>"
  have tb1: "panel_ok tb1" "distinct (wins tb1)" "wins tb1 = wins tb" "my_desktop tb1 = get_current_desktop g e"
    using assms(1) by (simp_all add: panel_ok_def tb1_def)
  obtain tb2 ops2 where s: "foldl (sweep_task ?nd cl ?f) (tb1, []) (wins tb1) = (tb2, ops2)" by fastforce
  have tb2: "wins tb2 = filter (\<lambda>w. \<not> ?nd \<and> w \<in> set cl) (wins tb)" "my_desktop tb2 = get_current_desktop g e"
      "panel_ok tb2"
    using foldl_sweep [OF tb1(1,2), of ?nd cl ?f "[]"] tb1(3,4) unfolding s
    by (auto intro: filter_cong)
  have "taskbar_read_clientlist g e tb = foldl (add_new g e ?f) (tb2, ops2) cl"
    using assms(2) s by (simp add: taskbar_read_clientlist_def Let_def tb1_def)
  moreover have "wins tb2 = (if get_current_desktop g e = my_desktop tb then filter (\<lambda>w. w \<in> set cl) (wins tb) else [])"
    using tb2(1) by simp
  ultimately show ?thesis
    using foldl_add_new [OF tb2(3,2), of ?f ops2 cl] by (simp only: Let_def)
qed

lemma read_clientlist_None:
  "client_list g e = None \<Longrightarrow> fst (taskbar_read_clientlist g e tb) = tb\<lparr>my_desktop := get_current_desktop g e\<rparr>"
  by (simp add: taskbar_read_clientlist_def Let_def)

lemma read_clientlist_ok: "panel_ok tb \<Longrightarrow> panel_ok (fst (taskbar_read_clientlist g e tb))"
  using read_clientlist_Some [of tb g e] read_clientlist_None [of g e tb]
  by (cases "client_list g e") (auto simp: panel_ok_def)

lemma place_tasks_wins: "map tk_win (fst (place_tasks xpm g e tw x tks)) = map tk_win tks"
  by (induction tks arbitrary: x) (auto simp: Let_def split: prod.split, metis fst_conv)

lemma draw_taskbar_same:
  "wins (fst (gui_draw_taskbar xpm g e tb)) = wins tb"
  "num_tasks (fst (gui_draw_taskbar xpm g e tb)) = num_tasks tb"
  using place_tasks_wins [of xpm g e _ 80 "task_list tb"]
  by (auto simp: gui_draw_taskbar_def Let_def split: prod.split) (metis fst_conv)

lemma each_task_same:
  assumes "\<And>tk. tk_win (fst (f tk)) = tk_win tk"
  shows "wins (fst (each_task f tb)) = wins tb" "num_tasks (fst (each_task f tb)) = num_tasks tb"
  using assms by (simp_all add: each_task_def)

lemma press_task_win: "tk_win (fst (press_task xpm g e x tk)) = tk_win tk"
  by (simp add: press_task_def Let_def)

lemma focus_in_task_win: "tk_win (fst (focus_in_task xpm g e w tk)) = tk_win tk"
  by (simp add: focus_in_task_def Let_def)

lemma property_task_win: "tk_win (fst (property_task xpm g e at tk)) = tk_win tk"
  using hinticon_win [of g e tk] by (cases "get_task_hinticon g e tk") (simp add: property_task_def Let_def)

lemma update_task_wins:
  assumes "\<And>tk. tk_win (fst (f tk)) = tk_win tk"
  shows "map tk_win (fst (update_task tks w f)) = map tk_win tks"
  by (induction tks) (use assms in \<open>auto split: prod.split, metis fst_conv\<close>)

lemma panel_ok_draw: "panel_ok tb \<Longrightarrow> panel_ok (fst (gui_draw_taskbar xpm g e tb))"
  using panel_ok_same draw_taskbar_same by blast

lemma handle_press_ok: "panel_ok tb \<Longrightarrow> panel_ok (fst (handle_press xpm g e tb x y))"
  using panel_ok_same [of tb "fst (each_task (press_task xpm g e x) tb)"] each_task_same [OF press_task_win]
  by (auto simp: handle_press_def Let_def panel_ok_def)

lemma handle_focusin_ok: "panel_ok tb \<Longrightarrow> panel_ok (fst (handle_focusin xpm g e tb w))"
  unfolding handle_focusin_def
  by (rule panel_ok_same) (simp_all only: each_task_same [OF focus_in_task_win])

lemma handle_propertynotify_ok: "panel_ok tb \<Longrightarrow> panel_ok (fst (handle_propertynotify xpm g e tb w at))"
proof -
  assume ok: "panel_ok tb"
  obtain tb1 ops1 where r: "taskbar_read_clientlist g e tb = (tb1, ops1)" by fastforce
  obtain tks ops where u: "update_task (task_list tb) w (property_task xpm g e at) = (tks, ops)" by fastforce
  have "panel_ok (fst (gui_draw_taskbar xpm g e tb1))"
    using read_clientlist_ok [OF ok, of g e] r panel_ok_draw by simp
  moreover have "panel_ok (tb\<lparr>task_list := tks\<rparr>)"
    by (rule panel_ok_same [OF ok])
       (use update_task_wins [of "property_task xpm g e at", OF property_task_win, of "task_list tb" w] u in simp_all)
  ultimately show ?thesis
    using ok by (cases "gui_draw_taskbar xpm g e tb1") (simp add: handle_propertynotify_def r u)
qed

lemma panel_event_ok: "panel_ok tb \<Longrightarrow> panel_ok (fst (panel_event xpm g e ev tb))"
proof (cases ev)
  case (DestroyNotify w)
  assume "panel_ok tb"
  then have "panel_ok (fst (gui_draw_taskbar xpm g e (fst (del_task tb w))))"
    by (intro panel_ok_draw panel_ok_del)
  then show ?thesis
    by (cases "del_task tb w"; cases "gui_draw_taskbar xpm g e (fst (del_task tb w))") (simp add: panel_event_def DestroyNotify)
qed (simp_all add: panel_event_def handle_press_ok panel_ok_draw handle_propertynotify_ok handle_focusin_ok)

interpretation panel: invariant_machine "panel_step xpm g" "\<lambda>_. True" panel_ok
  by unfold_locales (auto simp: panel_step_def panel_event_ok)

lemma main_panel_ok: "main_panel xpm se argv = Some (Some (g, tb, ops)) \<Longrightarrow> panel_ok tb"
  by (auto simp: main_panel_def gui_create_taskbar_def panel_ok_def split: if_splits option.splits)

text \<open>
  C12: in every state the panel can reach from its start, by any sequence of events and whatever the
  X server answers, the counter of tasks is the number of buttons and no window has two buttons.
\<close>

theorem panel_tasks_wellformed:
  assumes "main_panel xpm se argv = Some (Some (g, tb, ops))"
  shows "let tb' = foldl (panel_step xpm g) tb evs
    in num_tasks tb' = int (length (task_list tb')) \<and> distinct (map tk_win (task_list tb'))"
  using panel.run_good [OF main_panel_ok [OF assms], of evs xpm g] by (simp add: panel_ok_def Let_def list_all_iff)

definition example_start :: start_env where
  "example_start = \<lparr>se_display = True, se_root = 1, se_depth = 24, se_width = 1024, se_height = 768,
     se_color = (\<lambda>r g b. ucast r), se_font = (\<lambda>_. Some 10), se_generic = (5, 6), se_ewmh = True, se_window = 2\<rparr>"

definition example_xenv :: xenv where
  "example_xenv = \<lparr>get_prop_data = (\<lambda>w p t. if w = 1 \<and> p = ''_NET_CLIENT_LIST'' \<and> t = ''WINDOW''
       then Some \<lparr>items = 3, word_at = (\<lambda>i. if i = 1 then 11 else 10)\<rparr> else None),
     get_text = (\<lambda>w p t. Some ''x''), geometry = (\<lambda>_. (16, 16, 24)), new_icon = (\<lambda>w. w + 100),
     new_mask = (\<lambda>w. w + 200), input_focus = 10, text_width = (\<lambda>s. int (length s) * 8), ctime = []\<rparr>"

theorem panel_tasks_wellformed_witness:
  "\<exists>g tb ops. main_panel True example_start [] = Some (Some (g, tb, ops)) \<and>
     num_tasks (foldl (panel_step True g) tb [(example_xenv, Expose)])
       = int (length (task_list (foldl (panel_step True g) tb [(example_xenv, Expose)])))"
proof -
  obtain g tb ops where run: "main_panel True example_start [] = Some (Some (g, tb, ops))"
    by (simp add: main_panel_def example_start_def gui_init_def load_font_def gui_create_taskbar_def)
  from panel_tasks_wellformed [OF run, of "[(example_xenv, Expose)]"] run show ?thesis
    unfolding Let_def by blast
qed

subsection \<open>Which windows are shown\<close>

text \<open>
  C11: reading the client list gives every window its place: on the same desktop the windows that are
  still in the list keep their buttons and their order, on a new desktop none does; behind them
  follow, in the order of the list and each once, the windows of the list that have no button yet,
  are visible on the desktop and do not ask to be left out.
\<close>

theorem read_clientlist_shows:
  assumes "panel_ok tb" and "client_list g e = Some cl"
  shows "let kept = (if get_current_desktop g e = my_desktop tb
                     then filter (\<lambda>w. w \<in> set cl) (map tk_win (task_list tb)) else []);
             shown = map tk_win (task_list (fst (taskbar_read_clientlist g e tb)))
         in shown = kept @ new_windows (showable g e) kept cl \<and> distinct shown \<and>
            set shown = set kept \<union> {w \<in> set cl. showable g e w}"
  using read_clientlist_Some [OF assms]
  by (auto simp: Let_def panel_ok_def set_new_windows)

definition example_cfg :: panel_cfg where
  "example_cfg = \<lparr>root_win = 1, wm_use_ewmh = True, always_on_top = True, generic_icon = 5, generic_mask = 6,
     scr_depth = 24, scr_width = 1024, scr_height = 768, text_y = 17, palette = [0, 1, 2, 3, 4, 5]\<rparr>"

definition example_tb :: taskbar where
  "example_tb = \<lparr>tb_win = 2, task_list = [], num_tasks = 0, my_desktop = 0, tb_hidden = False, at_top = False\<rparr>"

theorem read_clientlist_shows_witness:
  "map tk_win (task_list (fst (taskbar_read_clientlist example_cfg example_xenv example_tb))) = [10, 11]"
proof -
  have cl: "client_list example_cfg example_xenv = Some [10, 11, 10]"
    by (simp add: client_list_def example_cfg_def example_xenv_def upt_rec)
  have vis: "showable example_cfg example_xenv w" if "w \<noteq> 1" for w
    using that by (simp add: showable_def is_visible_on_desktop_def is_hidden_def cardinal_def example_xenv_def)
  have "panel_ok example_tb" by (simp add: panel_ok_def example_tb_def)
  from read_clientlist_shows [OF this cl] show ?thesis
    by (simp add: Let_def example_tb_def vis split: if_splits)
qed

subsection \<open>Places of the buttons\<close>

lemma place_tasks_nth:
  "i < length tks \<Longrightarrow> fst (place_tasks xpm g e tw x tks) ! i = (tks ! i)\<lparr>pos_x := x + int i * tw, tk_width := tw - 1\<rparr>"
proof (induction tks arbitrary: x i)
  case (Cons tk tks)
  obtain tks' ops x' where p: "place_tasks xpm g e tw (x + tw) tks = (tks', ops, x')" by (metis prod_cases3)
  show ?case
  proof (cases i)
    case 0
    then show ?thesis by (simp add: p Let_def)
  next
    case (Suc j)
    have "x + tw + int j * tw = x + int (Suc j) * tw" by (simp add: algebra_simps)
    with Suc Cons.prems Cons.IH [of j "x + tw"] show ?thesis by (simp add: p Let_def)
  qed
qed simp

lemma place_tasks_length: "length (fst (place_tasks xpm g e tw x tks)) = length tks"
  using place_tasks_wins [of xpm g e tw x tks] by (metis length_map)

lemma task_slot_width:
  assumes "0 < n" and "139 \<le> scr_width g"
  shows "0 \<le> fst (task_slot g n) \<and> n * fst (task_slot g n) \<le> scr_width g - 139"
proof -
  let ?w = "scr_width g - 139"
  have sd: "(scr_width g - 80 - time_width - TEXTPAD * 4) sdiv n = ?w div n"
    using assms by (simp add: signed_divide_int_def time_width_def TEXTPAD_def sgn_if algebra_simps)
  have q: "0 \<le> ?w div n" "n * (?w div n) \<le> ?w"
    using assms by (simp_all add: pos_imp_zdiv_nonneg_iff) (metis mult_div_mod_eq pos_mod_sign le_add_same_cancel1)
  moreover have "n * 145 \<le> n * (?w div n)" if "145 < ?w div n"
    using that assms(1) by simp
  ultimately show ?thesis
    using sd by (auto simp: task_slot_def Let_def MAX_TASK_WIDTH_def)
qed

lemma drawn_task:
  assumes "panel_ok tb" and "i < length (task_list tb)"
  shows "task_list (fst (gui_draw_taskbar xpm g e tb)) ! i
      = (task_list tb ! i)\<lparr>pos_x := 80 + int i * fst (task_slot g (num_tasks tb)),
          tk_width := fst (task_slot g (num_tasks tb)) - 1\<rparr>"
proof -
  obtain tw r where ts: "task_slot g (num_tasks tb) = (tw, r)" by fastforce
  obtain tks ops x where p: "place_tasks xpm g e tw 80 (task_list tb) = (tks, ops, x)" by (metis prod_cases3)
  have "num_tasks tb \<noteq> 0" using assms by (auto simp: panel_ok_def)
  then have "task_list (fst (gui_draw_taskbar xpm g e tb)) = tks" by (simp add: gui_draw_taskbar_def ts p)
  then show ?thesis using place_tasks_nth [OF assms(2), of xpm g e tw 80] by (simp add: p ts)
qed

lemma drawn_length: "length (task_list (fst (gui_draw_taskbar xpm g e tb))) = length (task_list tb)"
  using draw_taskbar_same(1) by (metis length_map)

lemma drawn_geometry:
  assumes "panel_ok tb" and "139 \<le> scr_width g"
    and tks_def: "tks = task_list (fst (gui_draw_taskbar xpm g e tb))"
  shows "\<And>i. i < length tks \<Longrightarrow> 80 \<le> pos_x (tks ! i)"
    and "\<And>i. i < length tks \<Longrightarrow> pos_x (tks ! i) + tk_width (tks ! i) < clock_x g"
    and "\<And>i j. i < j \<Longrightarrow> j < length tks \<Longrightarrow> pos_x (tks ! i) + tk_width (tks ! i) < pos_x (tks ! j)"
proof -
  let ?n = "num_tasks tb"
  define tw where "tw = fst (task_slot g ?n)"
  have at: "pos_x (tks ! i) = 80 + int i * tw" "tk_width (tks ! i) = tw - 1" if "i < length tks" for i
    using drawn_task [OF assms(1)] that by (simp_all add: tks_def drawn_length tw_def)
  have len: "?n = int (length tks)" using assms(1) by (simp add: tks_def panel_ok_def drawn_length)
  have slot: "0 \<le> tw" "?n * tw \<le> scr_width g - 139" if "0 < length tks"
    using task_slot_width [OF _ assms(2), of ?n] that len by (simp_all add: tw_def)
  have le: "int (Suc i) * tw \<le> int j * tw" if "i < j" "j \<le> length tks" for i j
  proof -
    have "0 \<le> tw" by (rule slot(1)) (use that in linarith)
    then show ?thesis using that by (intro mult_right_mono) auto
  qed
  have fits: "int (Suc i) * tw \<le> scr_width g - 139" if "i < length tks" for i
  proof -
    have "?n * tw \<le> scr_width g - 139" by (rule slot(2)) (use that in linarith)
    with le [of i "length tks"] that len show ?thesis by simp
  qed
  show right: "pos_x (tks ! i) + tk_width (tks ! i) < clock_x g" if "i < length tks" for i
    using at [OF that] fits [OF that] by (simp add: clock_x_def time_width_def TEXTPAD_def algebra_simps)
  show "80 \<le> pos_x (tks ! i)" if "i < length tks" for i
  proof -
    have "0 \<le> tw" by (rule slot(1)) (use that in linarith)
    then show ?thesis using at(1) [OF that] by simp
  qed
  show "pos_x (tks ! i) + tk_width (tks ! i) < pos_x (tks ! j)" if "i < j" "j < length tks" for i j
    using le [of i j] at [of i] at(1) [of j] that by (simp add: algebra_simps)
qed

text \<open>
  C24: drawing places the buttons side by side: they lie between the arrows and the clock, in the
  order of the list, and no two of them overlap, for any number of windows and any screen at
  least as wide as the fixed parts of the panel.
\<close>

theorem drawn_buttons_disjoint:
  assumes "panel_ok tb" and "139 \<le> scr_width g"
  shows "let tks = task_list (fst (gui_draw_taskbar xpm g e tb))
    in (\<forall>i < length tks. 80 \<le> pos_x (tks ! i) \<and> pos_x (tks ! i) + tk_width (tks ! i) < clock_x g) \<and>
       (\<forall>i j. i < j \<and> j < length tks \<longrightarrow> pos_x (tks ! i) + tk_width (tks ! i) < pos_x (tks ! j))"
  using drawn_geometry [OF assms refl] by (simp add: Let_def)

definition two_tasks :: taskbar where
  "two_tasks = example_tb\<lparr>num_tasks := 2, task_list := [new_task example_xenv 10 True, new_task example_xenv 11 False]\<rparr>"

lemma two_tasks_ok: "panel_ok two_tasks"
  by (simp add: two_tasks_def panel_ok_def new_task_def)

theorem drawn_buttons_disjoint_witness:
  "let tks = task_list (fst (gui_draw_taskbar True example_cfg example_xenv two_tasks))
   in pos_x (tks ! 0) + tk_width (tks ! 0) < pos_x (tks ! 1)"
proof -
  have "length (task_list (fst (gui_draw_taskbar True example_cfg example_xenv two_tasks))) = 2"
    by (simp add: drawn_length two_tasks_def)
  moreover have "139 \<le> scr_width example_cfg" by (simp add: example_cfg_def)
  ultimately show ?thesis
    using drawn_buttons_disjoint [OF two_tasks_ok, of example_cfg True example_xenv] by (simp add: Let_def)
qed

subsection \<open>Clicks, focus and icons\<close>

text \<open>What a click does to the button under it.\<close>

definition toggled :: "task \<Rightarrow> task" where
  "toggled tk = (if iconified tk then tk\<lparr>iconified := False, focused := True\<rparr>
     else if focused tk then tk\<lparr>iconified := True, focused := False\<rparr> else tk\<lparr>focused := True\<rparr>)"

lemma press_task_fst:
  "fst (press_task xpm g e x tk) =
     (if x > pos_x tk \<and> x < pos_x tk + tk_width tk then toggled tk else tk\<lparr>focused := False\<rparr>)"
  by (cases tk) (simp add: press_task_def toggled_def Let_def)

lemma handle_press_on_tasks:
  assumes "80 \<le> x" and "x < clock_x g"
  shows "handle_press xpm g e tb x y = each_task (press_task xpm g e x) tb"
  using assms by (simp add: handle_press_def Let_def right_arrow_x_def left_arrow_x_def clock_x_def
      time_width_def TEXTPAD_def)

text \<open>The requests about client windows, and those the button of a task stands for.\<close>

fun is_window_op :: "xop \<Rightarrow> bool" where
  "is_window_op (MapWindow w) = True"
| "is_window_op (IconifyWindow w) = True"
| "is_window_op (RaiseWindow w) = True"
| "is_window_op (SetInputFocus w) = True"
| "is_window_op op = False"

definition button_requests :: "task \<Rightarrow> xop list" where
  "button_requests tk =
     (if iconified tk then [MapWindow (tk_win tk)]
      else if focused tk then [IconifyWindow (tk_win tk)]
      else [RaiseWindow (tk_win tk), SetInputFocus (tk_win tk)])"

lemma gui_draw_task_no_request:
  "MapWindow w \<notin> set (gui_draw_task xpm g e tk)" "IconifyWindow w \<notin> set (gui_draw_task xpm g e tk)"
  "RaiseWindow w \<notin> set (gui_draw_task xpm g e tk)" "SetInputFocus w \<notin> set (gui_draw_task xpm g e tk)"
  by (auto simp: gui_draw_task_def gui_draw_vline_def set_foreground_def draw_button_def Let_def
      split: option.splits if_splits prod.splits)

lemma gui_draw_task_no_window_op: "filter is_window_op (gui_draw_task xpm g e tk) = []"
  using gui_draw_task_no_request unfolding filter_empty_conv by (metis is_window_op.elims(2))

lemma press_task_requests:
  "filter is_window_op (snd (press_task xpm g e x tk)) =
     (if x > pos_x tk \<and> x < pos_x tk + tk_width tk then button_requests tk else [])"
  by (simp add: press_task_def button_requests_def gui_draw_task_no_window_op Let_def)

lemma concat_single:
  "i < n \<Longrightarrow> concat (map (\<lambda>j. if j = i then xs else []) [0..<n]) = xs"
  by (induction n) (auto simp: less_Suc_eq)

text \<open>
  C23: a click on a drawn button does to that task what the button is for. The requests to the X
  server about windows are exactly these: an iconified window is mapped, the focused one is
  iconified, any other is raised and given the input focus; no other window is touched. The task's
  marks change accordingly, the focus mark is taken off every other button, and nothing else about the
  tasks changes.
\<close>

theorem click_on_button:
  assumes "panel_ok tb" and "139 \<le> scr_width g"
    and "tks = task_list (fst (gui_draw_taskbar xpm g e tb))" and "i < length tks"
    and "pos_x (tks ! i) < x" and "x < pos_x (tks ! i) + tk_width (tks ! i)"
  shows "task_list (fst (handle_press xpm g e (fst (gui_draw_taskbar xpm g e tb)) x y))
    = map (\<lambda>j. if j = i then toggled (tks ! j) else (tks ! j)\<lparr>focused := False\<rparr>) [0..<length tks]
    \<and> filter is_window_op (snd (handle_press xpm g e (fst (gui_draw_taskbar xpm g e tb)) x y))
    = (if iconified (tks ! i) then [MapWindow (tk_win (tks ! i))]
       else if focused (tks ! i) then [IconifyWindow (tk_win (tks ! i))]
       else [RaiseWindow (tk_win (tks ! i)), SetInputFocus (tk_win (tks ! i))])"
proof -
  note geo = drawn_geometry [OF assms(1-3)]
  have x: "80 \<le> x" "x < clock_x g" using geo(1,2) [OF assms(4)] assms(5,6) by linarith+
  have hit: "(x > pos_x (tks ! j) \<and> x < pos_x (tks ! j) + tk_width (tks ! j)) = (j = i)"
    if "j < length tks" for j
    using geo(3) [of i j] geo(3) [of j i] that assms(4-6) by (cases j i rule: linorder_cases) auto
  note press = handle_press_on_tasks [OF x, of xpm e _ y]
  have "fst (press_task xpm g e x (tks ! j))
      = (if j = i then toggled (tks ! j) else (tks ! j)\<lparr>focused := False\<rparr>)" if "j < length tks" for j
    using hit [OF that] by (auto simp: press_task_fst)
  then have tasks: "map (fst \<circ> press_task xpm g e x) tks
      = map (\<lambda>j. if j = i then toggled (tks ! j) else (tks ! j)\<lparr>focused := False\<rparr>) [0..<length tks]"
    by (auto intro!: nth_equalityI)
  have "map (\<lambda>tk. filter is_window_op (snd (press_task xpm g e x tk))) tks
      = map (\<lambda>j. if j = i then button_requests (tks ! i) else []) [0..<length tks]"
    using hit by (intro nth_equalityI) (simp_all add: press_task_requests)
  then have "concat (map (\<lambda>tk. filter is_window_op (snd (press_task xpm g e x tk))) tks) = button_requests (tks ! i)"
    using concat_single [OF assms(4)] by simp
  with tasks show ?thesis
    by (simp add: press each_task_def assms(3) filter_concat button_requests_def comp_def)
qed

theorem click_on_button_witness:
  "map focused (task_list (fst (handle_press True example_cfg example_xenv
      (fst (gui_draw_taskbar True example_cfg example_xenv two_tasks)) 300 10))) = [False, True] \<and>
   filter is_window_op (snd (handle_press True example_cfg example_xenv
      (fst (gui_draw_taskbar True example_cfg example_xenv two_tasks)) 300 10)) = [RaiseWindow 11, SetInputFocus 11]"
proof -
  define tks where "tks = task_list (fst (gui_draw_taskbar True example_cfg example_xenv two_tasks))"
  have len: "length tks = 2" by (simp add: tks_def drawn_length two_tasks_def)
  have slot: "fst (task_slot example_cfg 2) = 145"
    by (simp add: task_slot_def example_cfg_def time_width_def TEXTPAD_def MAX_TASK_WIDTH_def signed_divide_int_def)
  have one: "tks ! 1 = (new_task example_xenv 11 False)\<lparr>pos_x := 225, tk_width := 144\<rparr>"
    using drawn_task [OF two_tasks_ok, of 1 True example_cfg example_xenv] slot
    by (simp add: tks_def two_tasks_def)
  have w: "139 \<le> scr_width example_cfg" by (simp add: example_cfg_def)
  have "\<not> iconified (tks ! 1)" "\<not> focused (tks ! 1)" "tk_win (tks ! 1) = 11"
    by (simp_all only: one) (simp_all add: new_task_def is_iconified_def example_xenv_def)
  then show ?thesis
    using click_on_button [OF two_tasks_ok w tks_def, of 1 300 10] len
    by (simp add: one [unfolded One_nat_def] toggled_def upt_rec tks_def [symmetric])
qed

text \<open>
  When the X server reports that a window got the focus, exactly the button of that window is
  marked, whatever was marked before.
\<close>

theorem focusin_marks_window:
  "map focused (task_list (fst (handle_focusin xpm g e tb w))) = map (\<lambda>tk. tk_win tk = w) (task_list tb)"
  by (simp add: handle_focusin_def each_task_def focus_in_task_def Let_def)

lemma switch_desk_sends:
  assumes "SendDesktop a d \<in> set (switch_desk g e tb rel)"
  obtains n where "cardinal e (root_win g) (if wm_use_ewmh g then ''_NET_NUMBER_OF_DESKTOPS'' else ''_WIN_WORKSPACE_COUNT'') = Some n"
    and "0 \<le> d" and "d < int (unat n)" and "d = my_desktop tb + rel"
proof (cases "cardinal e (root_win g) (if wm_use_ewmh g then ''_NET_NUMBER_OF_DESKTOPS'' else ''_WIN_WORKSPACE_COUNT'')")
  case None
  with assms show ?thesis by (simp add: switch_desk_def Let_def split: if_splits)
next
  case (Some n)
  with assms that show ?thesis by (simp add: switch_desk_def Let_def split: if_splits)
qed

lemma press_task_no_desktop: "SendDesktop a d \<notin> set (snd (press_task xpm g e x tk))"
  by (auto simp: press_task_def gui_draw_task_def gui_draw_vline_def set_foreground_def draw_button_def Let_def
      split: option.splits if_splits prod.splits)

text \<open>
  The arrows never ask for a desktop that does not exist: the desktop a click asks for is a
  neighbour of the current one, not negative, and below the number of desktops.
\<close>

theorem press_switches_to_existing:
  assumes "SendDesktop a d \<in> set (snd (handle_press xpm g e tb x y))"
  shows "\<exists>n. cardinal e (root_win g) (if wm_use_ewmh g then ''_NET_NUMBER_OF_DESKTOPS'' else ''_WIN_WORKSPACE_COUNT'') = Some n
    \<and> 0 \<le> d \<and> d < int (unat n) \<and> \<bar>d - my_desktop tb\<bar> = 1"
proof -
  have "SendDesktop a d \<in> set (switch_desk g e tb 1) \<or> SendDesktop a d \<in> set (switch_desk g e tb (- 1))"
    using assms press_task_no_desktop
    by (auto simp: handle_press_def each_task_def move_taskbar_def Let_def split: if_splits)
  then obtain rel where "SendDesktop a d \<in> set (switch_desk g e tb rel)" "\<bar>rel\<bar> = 1" by fastforce
  then show ?thesis by (elim switch_desk_sends) auto
qed

definition desk_xenv :: xenv where
  "desk_xenv = example_xenv\<lparr>get_prop_data := (\<lambda>w p t. Some \<lparr>items = 1, word_at = (\<lambda>i. 4)\<rparr>)\<rparr>"

theorem press_switches_to_existing_witness:
  "SendDesktop ''_NET_CURRENT_DESKTOP'' 1 \<in> set (snd (handle_press True example_cfg desk_xenv example_tb 52 10))
   \<and> \<bar>1 - my_desktop example_tb\<bar> = 1"
proof -
  have run: "SendDesktop ''_NET_CURRENT_DESKTOP'' 1 \<in> set (snd (handle_press True example_cfg desk_xenv example_tb 52 10))"
    by (simp add: handle_press_def switch_desk_def cardinal_def desk_xenv_def example_cfg_def example_tb_def
        right_arrow_x_def WINHEIGHT_def)
  from press_switches_to_existing [OF this] run show ?thesis by blast
qed

text \<open>The scaled positions of a small icon lie inside the source icon.\<close>

lemma scaled_less:
  assumes "x < n" and "0 < n" and "n \<le> 16" and "0 < w" and "unat w < 2 ^ 28"
  shows "scaled x w n < w"
proof -
  have u: "unat (of_nat x :: u32) = x" "unat (of_nat n :: u32) = n"
    using assms(1,3) by (simp_all add: unsigned_of_nat take_bit_nat_eq_self)
  have "x * unat w < 16 * 2 ^ 28"
    using assms by (intro mult_strict_mono') auto
  then have m: "unat (of_nat x * w) = x * unat w" using u by (subst unat_mult_lem [THEN iffD1]) simp_all
  have "x * unat w < n * unat w" using assms(1,4) by (simp add: word_less_nat_alt)
  then have "x * unat w div n < unat w" using assms(2) by (simp add: less_mult_imp_div_less mult.commute)
  then show ?thesis by (simp add: scaled_def word_less_nat_alt unat_div u m)
qed

text \<open>
  C31: the scaling routine only reads pixels of the source icon: for every icon smaller than 2^28
  pixels in each direction, each copied pixel lies inside the icon (and its mask, which has the
  same size) and is written inside the small icon.
\<close>

theorem scale_icon_inside:
  assumes "geometry e (tk_icon tk) = (w, h, d)" and "0 < w" and "0 < h" and "unat w < 2 ^ 28" and "unat h < 2 ^ 28"
    and "CopyPixel plane src dst xx yy x y \<in> set (snd (scale_icon g e tk))"
  shows "xx < w \<and> yy < h \<and> x < 16 \<and> y < 16"
proof -
  from assms(1,6) have "xx = scaled x w ICONWIDTH \<and> yy = scaled y h ICONHEIGHT \<and> x < ICONWIDTH \<and> y < ICONHEIGHT"
    by (auto simp: scale_icon_def scale_pixel_def set_foreground_def Let_def split: if_splits option.splits)
  then show ?thesis using assms scaled_less by (simp add: ICONWIDTH_def ICONHEIGHT_def)
qed

theorem scale_icon_inside_witness:
  "CopyPixel False 0 110 15 15 15 15 \<in> set (snd (scale_icon example_cfg example_xenv (new_task example_xenv 10 True)))
   \<and> (15 :: u32) < 16"
proof -
  have run: "CopyPixel False 0 110 15 15 15 15 \<in> set (snd (scale_icon example_cfg example_xenv (new_task example_xenv 10 True)))"
    by (simp add: scale_icon_def scale_pixel_def Let_def new_task_def example_xenv_def example_cfg_def scaled_def
        ICONWIDTH_def ICONHEIGHT_def XNone_def upt_rec)
  have "geometry example_xenv (tk_icon (new_task example_xenv 10 True)) = (16, 16, 24)" by (simp add: example_xenv_def)
  from scale_icon_inside [OF this _ _ _ _ run] run show ?thesis by simp
qed

end
