(* ===== verification/Spec2Isabelle.thy ===== *)
theory Spec2Isabelle
  imports Handover WinresStart Brightness SmallTools ParseEdid FsPanel
begin

text \<open>
  \<^bold>\<open>The C programs of mltk.\<close>

  mltk builds the Linux systems of a computer pool: clients boot over the network, the user logs in
  and works in a virtual machine. Most of the repository is shell and configuration. Its own compiled
  programs are written in C and lie under \<open>src/core/modules\<close>; this development models them.

  \<^bold>\<open>The programs and how they interact.\<close>

  \<^item> The password daemon (\<open>run-virt/pw_daemon.c\<close>) runs on the host for the logged-in user. It
    keeps the password encrypted with a random key and hands it out twice: to programs of the same
    user over a local socket, and by UDP to whoever knows the first of two keys.
  \<^item> The guest agent (\<open>run-virt/winres/src/winres.c\<close>) runs in the Windows guest. It reads the share
    file and settings from a floppy image, asks the daemon for the password, mounts network drives,
    sets the screen resolution, starts scripts and erases the password when it is done.
  \<^item> The brightness program (\<open>slx-brightness/src/main.c\<close>) turns key events into writes of a number.
  \<^item> The EDID parser (\<open>parse-edid/source/parse-edid\<close>, copied to \<open>beamergui\<close>) turns the data block of a
    monitor into mode lines.
  \<^item> The panel (\<open>fspanel/fspanel\<close>) shows a button per window and reacts to X events.
  \<^item> Small tools: the USB patchers (\<open>vmware16\<close>, \<open>vmware17\<close>, \<open>vmware25H2\<close>), the firewall wrapper
    (\<open>run-virt/fwtool/main.c\<close>), \<open>rdns/rdns.c\<close>, \<open>idleaction/xprintidle.c\<close> and
    \<open>idleaction/xprintlocktime.c\<close>.

  \<^bold>\<open>The theories.\<close>

  \<^item> \<open>Prelude\<close>: types of fixed width, characters and bytes, list facts, and the locale
    \<open>invariant_machine\<close> for handlers that are called once per event. It is interpreted for the
    daemon's accept loop (\<open>accept_loop\<close>, \<open>live_loop\<close>, \<open>port_latch\<close>), the agent's credentials
    (\<open>cred_machine\<close>), its drive session (\<open>drive_session\<close>) and cached credentials (\<open>cache_session\<close>), and
    the panel (\<open>panel\<close>). The locale \<open>partial_machine\<close> is the same
    for handlers that may not return; it is interpreted for the agent's message loop
    (\<open>reachable_run\<close>, \<open>clean_run\<close>) and the brightness key loop (\<open>key_loop\<close>).
  \<^item> \<open>CLib\<close>: the C library functions the programs use (\<open>strtol\<close>, \<open>atoi\<close>, \<open>fgets\<close>, \<open>snprintf\<close>, decimal
    printing), with their round trips.
  \<^item> \<open>PwDaemon\<close>: \<open>pw_daemon.c\<close>, function by function: \<open>keygen\<close>, \<open>xorString_pwd\<close>, \<open>bin2hex\<close>,
    \<open>setup_vars\<close>, \<open>init_udp\<close>, \<open>udp_serve\<close> (the listener), \<open>handle_client\<close> (the forked child of the
    accept loop), \<open>mode_query\<close>, \<open>mode_pw\<close>, \<open>mode_daemon_init\<close>, \<open>server_step\<close> (one turn of the accept
    loop), \<open>sig_handler\<close>, \<open>main_pwd\<close>. A signal may come between two events, after the fork of the
    listener and before its pid is stored (\<open>udp_early\<close>), or before the fork for the client; the ghost
    field \<open>srv_gone\<close> records the children collected so far. Shown: the order of the start-up, what other
    users learn (nothing), the single UDP listener and that it lives unless it dies before
    its pid is stored (\<open>accept_loop_race\<close> is that case), the quality of the keys, the protocol of the local socket.
  \<^item> \<open>GuestCreds\<close>: the agent's \<open>getToken\<close>, \<open>readShareFile\<close>, \<open>uncReplaceFqdnByIp\<close>, \<open>hex2bin\<close>,
    \<open>xorString\<close>, \<open>queryPasswordDaemon\<close> and the first part of \<open>udpReceived\<close>. Shown: the pointer loops
    of the tokeniser refine a list function, the drive table holds exactly the first drives of the file and is never written behind
    its end, a query never uses a missing key.
  \<^item> \<open>Handover\<close>: the daemon and the agent together. The locales \<open>hex_codec\<close> and \<open>sealed_channel\<close> state
    what the two sides need of each other; they are interpreted on \<open>bin2hex\<close>/\<open>hex2bin\<close> and on the two
    \<open>xorString\<close> functions.
  \<^item> \<open>WinresShell\<close>: \<open>escapeShellArg\<close> and \<open>launchRunscript\<close>. Shown: the started program reads back the
    argument; when the loop returns and when it does not; the exact list of scripts that are started.
  \<^item> \<open>WinresRes\<close>: \<open>setResolution\<close> with its parser, the check \<open>isResolutionFine\<close> and the four ways of
    setting a resolution, and the timer. Shown: the check accepts exactly the wanted layout, the
    multi-screen change reaches it, the configuration of physical screens is the exact choice of the
    code, and the timer ends.
  \<^item> \<open>WinresMount\<close>: \<open>mount\<close>, \<open>mountNetworkShare(s)\<close>, \<open>postSuccessfulMount\<close>, \<open>createFolderShortcut\<close>,
    \<open>patchRegPath\<close>, \<open>patchUserPaths\<close>, \<open>remapViaSharedFolder\<close>, \<open>udpReceived\<close>. The locale \<open>mount_policy\<close>
    carries a property of the action log through all of them; it is interpreted twice (\<open>persistent\<close>,
    \<open>no_printers\<close>). The locale \<open>mount_keeper\<close> does the same for a property of the state, for the
    static buffers of \<open>mount\<close> (\<open>cache\<close>, \<open>hold\<close>). What a failed conversion leaves in a buffer is the
    parameter \<open>me_left\<close>.
  \<^item> \<open>WinresMain\<close>: \<open>WinMain\<close> with its timers, the window procedure and the message loop as one step
    function \<open>agent_step\<close>, the inductive set of reachable states, and the remaining settings functions.
    The calls of the timers for screens, scripts and message boxes are kept in \<open>ag_log\<close>. Shown: the
    password variable is erased in time, the drives are given up in time, and a copy of the
    password stays in the buffer of \<open>mount\<close>.
  \<^item> \<open>WinresStart\<close>: the start-up of \<open>WinMain\<close> (libraries, settings, log file, timers, window, calls for
    remote access) and the whole run of the program on a sequence of messages. Shown: in persistent mode
    no run changes the user's folders, shortcuts or remote settings; that the resolution is saved
    all the same.
  \<^item> \<open>ParseEdid\<close>: \<open>parse-edid.c\<close> and \<open>modes.h\<close>. \<open>parseedid\<close>, \<open>parseextb\<close> and \<open>dofooter\<close> return the text
    they print and the modes found. Shown: no input makes it write outside its table of modes, the bit
    fields of a timing are decoded as the standard lays them out, the modes section is exactly the
    timings found, and which extension blocks make it read behind their end.
  \<^item> \<open>FsPanel\<close>: \<open>fspanel.c\<close>. The state is the task bar; every handler returns the new state and the X
    requests it makes. \<open>panel_step\<close> is one event of the main loop, and \<open>panel\<close> interprets
    \<open>invariant_machine\<close> on it. Shown: the task list stays well-formed, which windows are shown in
    which order, where the buttons are and what a click does, that icons are read inside their bounds.
  \<^item> \<open>Brightness\<close>: device search, reassembly of events, the brightness value, the epoll loop and the run
    of the whole program. Shown: the search ends, events are reassembled from any partial reads, and
    every text written is a number in the configured range.
  \<^item> \<open>SmallTools\<close>: the patchers, the firewall wrapper and the query tools.

  \<^bold>\<open>How code becomes definitions.\<close>

  A C function is a HOL function of its arguments and of the state it uses; global and static
  variables are fields of a record that is passed and returned. System calls and library calls into
  code outside the repository are arguments: either a list of results in the order of the calls, or a
  record of answers. Calls that only have an effect are collected in a log of actions in the order
  the code makes them. Buffers have the size of the source, and truncation at that size is modelled;
  integers are words of their width, or integers with the wrap-around written out where a sum can
  leave the range. A write behind the end of the drive table makes its list longer, so that it shows.
  A loop that can run forever is a \<open>partial_function\<close> in the option monad, so that
  \<open>None\<close> means that it does not return: \<open>open_events\<close> and the quoting loop \<open>esc_loop\<close>. No other fuel is used; loops over
  results of system calls recurse over the list of results.

  \<^bold>\<open>Not modelled.\<close>

  Log and terminal output that no other program reads; the shell, Java and Python parts of the
  repository and its configuration files. The meaning of Windows and X calls beyond their results, and concurrent
  execution inside one process, including the messages a Windows dialog dispatches on its own. The
  daemon's only signal handler runs at the points of the accept loop named above, which stand for all
  that its variables can tell apart.
\<close>

end
